theory Spec2Isabelle
  imports Main "HOL-Library.Sublist" "HOL-Library.Multiset"
begin

section \<open>Strings, errors and effects\<close>

text \<open>
  A JavaScript string is modelled as a \<^typ>\<open>string\<close>, one \<^typ>\<open>char\<close> per code unit
  (so the model covers the strings whose code units are below 256; \<open>length\<close> is
  \<open>.length\<close>). \<open>s.includes(pat)\<close> is \<^term>\<open>sublist pat s\<close>.
\<close>

definition js_includes :: "string \<Rightarrow> string \<Rightarrow> bool" where
  "js_includes s pat = sublist pat s"

definition digit_char :: "nat \<Rightarrow> char" where
  "digit_char d = ''0123456789'' ! (d mod 10)"

text \<open>Decimal rendering of a non-negative integer, as a template literal prints it.\<close>

function decimal :: "nat \<Rightarrow> string" where
  "decimal n = (if n < 10 then [digit_char n] else decimal (n div 10) @ [digit_char (n mod 10)])"
  by pat_completeness auto
termination
  by (relation "measure id") auto

declare decimal.simps [simp del]

text \<open>
  What a \<open>catch\<close> clause can receive: a \<open>FetchError\<close> (message and HTTP status), another
  \<open>Error\<close> instance (its class and message), or a value that is not an \<open>Error\<close>. Such a
  value is given by the text \<open>JSON.stringify\<close> produces for it (\<open>Thrown\<close>); when there is
  no such text, \<open>JSON.stringify\<close> returning \<open>undefined\<close> (for \<open>undefined\<close> itself, a function
  or a symbol) or throwing (a cyclic object, a \<open>BigInt\<close>), it is given by the message of
  the \<open>TypeError\<close> that the expression
  \<open>JSON.stringify(error).includes('429')\<close> then raises (\<open>ThrownUnserializable\<close>).
\<close>

datatype error_class = PlainError | SyntaxError | TypeError

datatype js_error =
    FetchError string nat
  | JsError error_class string
  | Thrown string
  | ThrownUnserializable string

text \<open>
  \<open>error instanceof Error ? error.message : JSON.stringify(error)\<close>, with \<open>None\<close> when
  there is no text.
\<close>

fun errorMessage :: "js_error \<Rightarrow> string option" where
  "errorMessage (FetchError m s) = Some m"
| "errorMessage (JsError c m) = Some m"
| "errorMessage (Thrown j) = Some j"
| "errorMessage (ThrownUnserializable t) = None"

text \<open>What evaluating the rate-limit test raises for a value without text.\<close>

fun testFailure :: "js_error \<Rightarrow> js_error" where
  "testFailure (ThrownUnserializable t) = JsError TypeError t"
| "testFailure error = error"

text \<open>
  The observable effects, in the order they happen: one invocation of a wrapped
  operation under test (\<open>Invoked\<close>), a timer wait of so many milliseconds (\<open>Slept\<close>), and
  the further events of the later sections.
\<close>

datatype 'r event =
    Invoked
  | Slept nat
  | Sent 'r
  | Progress nat nat

type_synonym ('r, 'a) operation = "'r event list \<Rightarrow> (js_error + 'a) \<times> 'r event list"

text \<open>\<open>const delay = (ms) => new Promise(res => setTimeout(res, ms))\<close>\<close>

definition delay :: "nat \<Rightarrow> 'r event list \<Rightarrow> 'r event list" where
  "delay ms w = w @ [Slept ms]"

fun slept_ms :: "'r event \<Rightarrow> nat" where
  "slept_ms (Slept ms) = ms"
| "slept_ms _ = 0"

definition total_delay :: "'r event list \<Rightarrow> nat" where
  "total_delay w = sum_list (map slept_ms w)"

definition invocations :: "'r event list \<Rightarrow> nat" where
  "invocations w = length (filter (\<lambda>e. e = Invoked) w)"

section \<open>retryableAIOperation\<close>

text \<open>
  \<^verbatim>\<open>
  const isRateLimitError = (error instanceof FetchError && error.status === 429) ||
                           errorMessage.includes('429') ||
                           errorMessage.includes('RESOURCE_EXHAUSTED');
  \<close>
\<close>

definition isRateLimitError :: "js_error \<Rightarrow> bool" where
  "isRateLimitError error =
     ((case error of FetchError m status \<Rightarrow> status = 429 | _ \<Rightarrow> False)
      \<or> (case errorMessage error of
            Some message \<Rightarrow> js_includes message ''429''
                              \<or> js_includes message ''RESOURCE_EXHAUSTED''
          | None \<Rightarrow> False))"

text \<open>
  The message of the error thrown after the loop; \<open>lastError\<close> is still \<open>undefined\<close>
  when the loop body never ran, and otherwise it is an error that passed the rate-limit
  test, which has a message.
\<close>

definition exhaustedError :: "nat \<Rightarrow> js_error option \<Rightarrow> js_error" where
  "exhaustedError retries lastError =
     JsError PlainError
       (''AI request failed after '' @ decimal retries @ '' attempts. Last error: '' @
        (case lastError of
           None \<Rightarrow> ''undefined''
         | Some e \<Rightarrow> (case errorMessage e of None \<Rightarrow> ''undefined'' | Some message \<Rightarrow> message)))"

text \<open>
  The \<open>for\<close> loop of \<open>retryableAIOperation\<close>, from iteration \<open>i\<close> on:
  \<^verbatim>\<open>
  for (let i = 0; i < retries; i++) {
      try { return await apiCall(); }
      catch (error) {
          lastError = error;
          const errorMessage = error instanceof Error ? error.message : JSON.stringify(error);
          const isRateLimitError = ...;
          if (isRateLimitError) {
              const waitTime = initialDelay * Math.pow(2, i);
              await delay(waitTime);
          } else { throw error; }
      }
  }
  throw new Error(`AI request failed after ${retries} attempts. ...`);
  \<close>
  For a caught value without text the \<open>catch\<close> block itself throws, and the \<open>TypeError\<close>
  leaves the function.
\<close>

function retryLoop ::
  "('r, 'a) operation \<Rightarrow> nat \<Rightarrow> nat \<Rightarrow> nat \<Rightarrow> js_error option \<Rightarrow> ('r, 'a) operation" where
  "retryLoop apiCall retries initialDelay i lastError w =
     (if i < retries then
        (case apiCall w of
           (Inr v, w') \<Rightarrow> (Inr v, w')
         | (Inl error, w') \<Rightarrow>
             if errorMessage error = None then (Inl (testFailure error), w')
             else if isRateLimitError error
             then retryLoop apiCall retries initialDelay (Suc i) (Some error)
                    (delay (initialDelay * 2 ^ i) w')
             else (Inl error, w'))
      else (Inl (exhaustedError retries lastError), w))"
  by pat_completeness auto
termination
  by (relation "measure (\<lambda>(apiCall, retries, initialDelay, i, lastError, w). retries - i)") auto

declare retryLoop.simps [simp del]

definition retryableAIOperation ::
  "('r, 'a) operation \<Rightarrow> nat \<Rightarrow> nat \<Rightarrow> ('r, 'a) operation" where
  "retryableAIOperation apiCall retries initialDelay w =
     retryLoop apiCall retries initialDelay 0 None w"

text \<open>
  A scripted operation, for stating properties of the wrapper alone: its \<open>k\<close>-th
  invocation (counting from 0) records itself and settles as \<open>script k\<close>.
\<close>

definition scripted :: "(nat \<Rightarrow> js_error + 'a) \<Rightarrow> ('r, 'a) operation" where
  "scripted script w = (script (invocations w), w @ [Invoked])"

text \<open>The attempts and waits of \<open>k\<close> rate-limited iterations starting at iteration \<open>i\<close>.\<close>

fun backoff :: "nat \<Rightarrow> nat \<Rightarrow> nat \<Rightarrow> 'r event list" where
  "backoff initialDelay i 0 = []"
| "backoff initialDelay i (Suc k) =
     Invoked # Slept (initialDelay * 2 ^ i) # backoff initialDelay (Suc i) k"

text \<open>
  The rate-limit failures the specification names: an HTTP 429 status, or a vendor's
  resource-exhausted signal.
\<close>

definition rateLimitFailure :: "js_error \<Rightarrow> bool" where
  "rateLimitFailure error =
     ((case error of FetchError m status \<Rightarrow> status = 429 | _ \<Rightarrow> False)
      \<or> (case errorMessage error of
            Some message \<Rightarrow> js_includes message ''RESOURCE_EXHAUSTED''
          | None \<Rightarrow> False))"

text \<open>Scripts for concrete runs of the wrapper.\<close>

definition twice_limited :: "nat \<Rightarrow> js_error + nat" where
  "twice_limited k =
     (if k < 2 then Inl (FetchError ''API request failed with status 429'' 429) else Inr 7)"

definition limited_then_broken :: "nat \<Rightarrow> js_error + nat" where
  "limited_then_broken k =
     (if k < 1 then Inl (JsError PlainError ''got status: 429 Too Many Requests'')
      else Inl (JsError PlainError ''AI provider returned an empty or invalid response.''))"

definition malformed_at_429 :: js_error where
  "malformed_at_429 = JsError SyntaxError ''Unexpected token < in JSON at position 429''"

definition always_malformed :: "nat \<Rightarrow> js_error + nat" where
  "always_malformed k = Inl malformed_at_429"

definition thrown_undefined :: js_error where
  "thrown_undefined =
     ThrownUnserializable
       (''Cannot read properties of undefined (reading '' @ [CHR 0x27] @ ''includes''
        @ [CHR 0x27] @ '')'')"

definition throwing_undefined :: "nat \<Rightarrow> js_error + nat" where
  "throwing_undefined k = Inl thrown_undefined"

section \<open>extractJson\<close>

text \<open>
  The characters that \<open>\s\<close> matches and that \<open>trim\<close> removes (white space and line
  terminators), among the code units below 256.
\<close>

definition isWhitespace :: "char \<Rightarrow> bool" where
  "isWhitespace c =
     (c \<in> set [CHR 0x09, CHR 0x0A, CHR 0x0B, CHR 0x0C, CHR 0x0D, CHR 0x20, CHR 0xA0])"

definition trim :: "string \<Rightarrow> string" where
  "trim s = rev (dropWhile isWhitespace (rev (dropWhile isWhitespace s)))"

definition fence :: string where
  "fence = [CHR 0x60, CHR 0x60, CHR 0x60]"

text \<open>
  The first alternative that succeeds, in the order a backtracking matcher tries them.
\<close>

fun first_success :: "('a \<Rightarrow> 'b option) \<Rightarrow> 'a list \<Rightarrow> 'b option" where
  "first_success f [] = None"
| "first_success f (x # xs) = (case f x of Some y \<Rightarrow> Some y | None \<Rightarrow> first_success f xs)"

text \<open>
  \<^verbatim>\<open>text.match(/```(?:json)?\s*([\s\S]*?)\s*```/)\<close>, piece by piece, each function
  matching the rest of the pattern at the start of its argument and returning what
  group 1 captured.

  \<open>closesFence r\<close>: the tail \<^verbatim>\<open>\s*```\<close> matches at the start of \<open>r\<close>; the greedy
  \<open>\s*\<close> takes the whole run of white space first and gives characters back one by one.
\<close>

definition closesFence :: "string \<Rightarrow> bool" where
  "closesFence r =
     list_ex (\<lambda>m. prefix fence (drop m r)) (rev [0 ..< Suc (length (takeWhile isWhitespace r))])"

text \<open>
  \<open>lazyBody r\<close>: \<^verbatim>\<open>([\s\S]*?)\s*```\<close> at the start of \<open>r\<close>; the lazy group tries the
  empty capture first and grows by one character at a time.
\<close>

definition lazyBody :: "string \<Rightarrow> string option" where
  "lazyBody r =
     first_success (\<lambda>n. if closesFence (drop n r) then Some (take n r) else None)
       [0 ..< Suc (length r)]"

text \<open>\<open>afterLang r\<close>: \<^verbatim>\<open>\s*([\s\S]*?)\s*```\<close> at the start of \<open>r\<close>, the first \<open>\s*\<close> greedy.\<close>

definition afterLang :: "string \<Rightarrow> string option" where
  "afterLang r =
     first_success (\<lambda>k. lazyBody (drop k r)) (rev [0 ..< Suc (length (takeWhile isWhitespace r))])"

text \<open>
  \<open>matchAt s\<close>: the whole pattern at the start of \<open>s\<close>; the optional group \<open>(?:json)?\<close>
  is tried with \<open>json\<close> first and without it second.
\<close>

definition matchAt :: "string \<Rightarrow> string option" where
  "matchAt s =
     (if prefix fence s then
        (let r = drop 3 s in
         case (if prefix ''json'' r then afterLang (drop 4 r) else None) of
           Some c \<Rightarrow> Some c
         | None \<Rightarrow> afterLang r)
      else None)"

text \<open>
  \<open>codeBlockMatch text\<close>: group 1 of the leftmost match, \<open>None\<close> when \<open>match\<close> returns
  \<open>null\<close>.
\<close>

definition codeBlockMatch :: "string \<Rightarrow> string option" where
  "codeBlockMatch text = first_success (\<lambda>i. matchAt (drop i text)) [0 ..< Suc (length text)]"

text \<open>\<open>indexOf\<close> and \<open>lastIndexOf\<close> of one character: \<open>-1\<close> when it does not occur.\<close>

definition indexOf :: "string \<Rightarrow> char \<Rightarrow> int" where
  "indexOf s c = (if c \<in> set s then int (length (takeWhile (\<lambda>x. x \<noteq> c) s)) else - 1)"

definition lastIndexOf :: "string \<Rightarrow> char \<Rightarrow> int" where
  "lastIndexOf s c =
     (if c \<in> set s then int (length s) - 1 - int (length (takeWhile (\<lambda>x. x \<noteq> c) (rev s)))
      else - 1)"

text \<open>
  \<open>s.substring(a, b)\<close>: both indices are clamped to \<open>0 .. s.length\<close> and swapped when
  \<open>a > b\<close>.
\<close>

definition substring :: "string \<Rightarrow> int \<Rightarrow> int \<Rightarrow> string" where
  "substring s a b =
     (let a' = nat (max 0 (min a (int (length s))));
          b' = nat (max 0 (min b (int (length s))))
      in take (max a' b' - min a' b') (drop (min a' b') s))"

text \<open>
  \<^verbatim>\<open>
  const extractJson = (text: string): string | null => {
      const codeBlockMatch = text.match(/```(?:json)?\s*([\s\S]*?)\s*```/);
      if (codeBlockMatch && codeBlockMatch[1]) { return codeBlockMatch[1].trim(); }
      const firstBracket = text.indexOf('{');
      const firstSquare = text.indexOf('[');
      let startIndex = -1;
      if (firstBracket === -1) { startIndex = firstSquare; }
      else if (firstSquare === -1) { startIndex = firstBracket; }
      else { startIndex = Math.min(firstBracket, firstSquare); }
      if (startIndex === -1) { return null; }
      const lastBracket = text.lastIndexOf('}');
      const lastSquare = text.lastIndexOf(']');
      const endIndex = Math.max(lastBracket, lastSquare);
      if (endIndex === -1 || endIndex < startIndex) { return null; }
      return text.substring(startIndex, endIndex + 1).trim();
  }
  \<close>
  The part after the code-block test is \<open>bracketSpan\<close>; \<open>None\<close> is \<open>null\<close>.
\<close>

definition bracketSpan :: "string \<Rightarrow> string option" where
  "bracketSpan text =
     (let firstBracket = indexOf text CHR ''{'';
          firstSquare = indexOf text CHR ''['';
          startIndex = (if firstBracket = - 1 then firstSquare
                        else if firstSquare = - 1 then firstBracket
                        else min firstBracket firstSquare)
      in if startIndex = - 1 then None
         else
           (let lastBracket = lastIndexOf text CHR ''}'';
                lastSquare = lastIndexOf text CHR '']'';
                endIndex = max lastBracket lastSquare
            in if endIndex = - 1 \<or> endIndex < startIndex then None
               else Some (trim (substring text startIndex (endIndex + 1)))))"

definition extractJson :: "string \<Rightarrow> string option" where
  "extractJson text =
     (case codeBlockMatch text of
        Some body \<Rightarrow> if body \<noteq> [] then Some (trim body) else bracketSpan text
      | None \<Rightarrow> bracketSpan text)"



text \<open>
  The notions the extraction policy is stated with. A code fence starts before index
  \<open>n\<close> of \<open>s\<close>; \<open>between\<close> is what stands between the first code fence of the text (with
  its optional \<open>json\<close> tag) and the next fence after it; the text has no pair of fences;
  \<open>span\<close> runs from the first opening bracket or brace of the text to its last closing
  bracket or brace, of whichever kind each is; no closing bracket or brace stands after
  an opening one.
\<close>

definition fenceStartsBefore :: "nat \<Rightarrow> string \<Rightarrow> bool" where
  "fenceStartsBefore n s = list_ex (\<lambda>i. prefix fence (drop i s)) [0 ..< n]"

definition isOpener :: "char \<Rightarrow> bool" where
  "isOpener c = (c = CHR ''{'' \<or> c = CHR ''['')"

definition isCloser :: "char \<Rightarrow> bool" where
  "isCloser c = (c = CHR ''}'' \<or> c = CHR '']'')"

definition fencedBlock :: "string \<Rightarrow> string \<Rightarrow> bool" where
  "fencedBlock text between =
     (\<exists>pre lang post.
        text = pre @ fence @ lang @ between @ fence @ post
        \<and> \<not> fenceStartsBefore (length pre) text
        \<and> (lang = ''json'' \<or> lang = [] \<and> \<not> prefix ''json'' between)
        \<and> \<not> fenceStartsBefore (length between) (between @ fence @ post))"

definition noFencedBlock :: "string \<Rightarrow> bool" where
  "noFencedBlock text = (\<not> (\<exists>pre mid post. text = pre @ fence @ mid @ fence @ post))"

definition bracketed :: "string \<Rightarrow> string \<Rightarrow> bool" where
  "bracketed text span =
     (\<exists>a x mid y z.
        text = a @ span @ z \<and> span = x # mid @ [y] \<and> isOpener x \<and> isCloser y
        \<and> \<not> list_ex isOpener a \<and> \<not> list_ex isCloser z)"

definition unbracketed :: "string \<Rightarrow> bool" where
  "unbracketed text = (\<exists>u v. text = u @ v \<and> \<not> list_ex isOpener u \<and> \<not> list_ex isCloser v)"






section \<open>The backlog sort of handleStartCrawling\<close>

text \<open>
  A crawled post (\<open>WordPressPost\<close>), with the fields the code under study reads;
  \<open>post_id\<close> is the field \<open>id\<close>, \<open>title\<close>, \<open>excerpt\<close> and \<open>content\<close> hold the \<open>rendered\<close>
  HTML of those fields.
\<close>

record wordPressPost =
  post_id :: nat
  title :: string
  excerpt :: string
  content :: string
  featured_media :: nat
  imageCount :: nat

text \<open>
  \<^verbatim>\<open>
  const sortedPosts = allPosts.sort((a, b) => {
    const aScore = (a.featured_media === 0 ? 1000 : 0) + (100 - a.imageCount);
    const bScore = (b.featured_media === 0 ? 1000 : 0) + (100 - b.imageCount);
    return bScore - aScore;
  });
  \<close>
  \<open>Array.prototype.sort\<close> with a comparator is a stable sort: an element goes before
  another when the comparator is negative, and equal elements keep their order.
\<close>

definition priorityScore :: "wordPressPost \<Rightarrow> int" where
  "priorityScore p = (if featured_media p = 0 then 1000 else 0) + (100 - int (imageCount p))"

definition comparePosts :: "wordPressPost \<Rightarrow> wordPressPost \<Rightarrow> int" where
  "comparePosts a b =
     (let aScore = priorityScore a; bScore = priorityScore b in bScore - aScore)"

fun insert_by :: "('a \<Rightarrow> 'a \<Rightarrow> int) \<Rightarrow> 'a \<Rightarrow> 'a list \<Rightarrow> 'a list" where
  "insert_by cmp x [] = [x]"
| "insert_by cmp x (y # ys) = (if cmp x y \<le> 0 then x # y # ys else y # insert_by cmp x ys)"

definition sort_by :: "('a \<Rightarrow> 'a \<Rightarrow> int) \<Rightarrow> 'a list \<Rightarrow> 'a list" where
  "sort_by cmp xs = foldr (insert_by cmp) xs []"

definition sortedPosts :: "wordPressPost list \<Rightarrow> wordPressPost list" where
  "sortedPosts allPosts = sort_by comparePosts allPosts"

text \<open>
  The specification's example backlog, and one with a post that has a featured image
  and a post that has none but 1200 embedded images.
\<close>

definition bare_post :: "nat \<Rightarrow> nat \<Rightarrow> nat \<Rightarrow> wordPressPost" where
  "bare_post i featured images =
     \<lparr>post_id = i, title = [], excerpt = [], content = [],
      featured_media = featured, imageCount = images\<rparr>"

definition example_backlog :: "wordPressPost list" where
  "example_backlog = [bare_post 1 5 3, bare_post 2 0 5, bare_post 3 0 0]"

definition crowded_backlog :: "wordPressPost list" where
  "crowded_backlog = [bare_post 1 5 0, bare_post 2 0 1200]"

section \<open>getTotalPosts\<close>

text \<open>
  The result of \<open>parseInt\<close>: an integer-valued number, \<open>NaN\<close> or an infinity.
  \<open>parseInt(s, 10)\<close> skips leading white space, reads an optional sign and the longest
  run of decimal digits, and is \<open>NaN\<close> when that run is empty; otherwise it is the number
  (a double) nearest to the integer the digits denote.
\<close>

datatype js_number = Num int | NaN | PositiveInfinity | NegativeInfinity

definition isDigit :: "char \<Rightarrow> bool" where
  "isDigit c = (48 \<le> (of_char c :: nat) \<and> (of_char c :: nat) \<le> 57)"

definition digitsValue :: "string \<Rightarrow> int" where
  "digitsValue ds = foldl (\<lambda>a c. 10 * a + (of_char c - 48)) 0 ds"

text \<open>The number of binary digits of \<open>n\<close>.\<close>

function bitLength :: "int \<Rightarrow> nat" where
  "bitLength n = (if n \<le> 0 then 0 else Suc (bitLength (n div 2)))"
  by pat_completeness auto
termination
  by (relation "measure nat") auto

declare bitLength.simps [simp del]

text \<open>
  The double nearest to a non-negative integer, ties going to the even significand of 53
  binary digits; \<open>None\<close> when the rounded value is beyond the largest double, and the
  number is an infinity. Below \<open>2 ^ 53\<close> every integer is a double.
\<close>

definition roundToDouble :: "int \<Rightarrow> int option" where
  "roundToDouble n =
     (if n < 2 ^ 53 then Some n
      else let e = bitLength n - 53;
               q = n div 2 ^ e;
               r = n mod 2 ^ e;
               up = (2 ^ e < 2 * r \<or> 2 * r = 2 ^ e \<and> odd q);
               v = (if up then q + 1 else q) * 2 ^ e
           in if v < 2 ^ 1024 then Some v else None)"

definition parseInt :: "string \<Rightarrow> js_number" where
  "parseInt s =
     (let t = dropWhile isWhitespace s;
          negative = (t \<noteq> [] \<and> hd t = CHR ''-'');
          r = (if t \<noteq> [] \<and> (hd t = CHR ''-'' \<or> hd t = CHR ''+'') then tl t else t);
          ds = takeWhile isDigit r
      in if ds = [] then NaN
         else case roundToDouble (digitsValue ds) of
                None \<Rightarrow> if negative then NegativeInfinity else PositiveInfinity
              | Some v \<Rightarrow> Num (if negative then - v else v))"

text \<open>
  What \<open>fetch\<close> is called with and what it resolves to. \<open>header\<close> is
  \<open>response.headers.get\<close>, \<open>None\<close> for \<open>null\<close>.
\<close>

datatype fetch_body = FormData | TextBody string

record request_init =
  init_method :: "string option"
  init_body :: "fetch_body option"

record fetch_request =
  req_url :: string
  req_method :: "string option"
  req_headers :: "(string \<times> string) list"
  req_body :: "fetch_body option"

record http_response =
  ok :: bool
  status :: nat
  statusText :: string
  header :: "string \<Rightarrow> string option"

text \<open>
  The browser: \<open>fetch\<close> (rejecting with an error, or resolving to a response) and
  \<open>btoa\<close>.
\<close>

record browser =
  fetch :: "fetch_request \<Rightarrow> js_error + http_response"
  btoa :: "string \<Rightarrow> string"

text \<open>\<^verbatim>\<open>baseUrl.replace(/\/$/, "")\<close>\<close>

definition stripTrailingSlash :: "string \<Rightarrow> string" where
  "stripTrailingSlash s = (if s \<noteq> [] \<and> last s = CHR ''/'' then butlast s else s)"

text \<open>
  \<^verbatim>\<open>
  const wpFetch = async (baseUrl, endpoint, username, appPassword?, options = {}) => {
    const url = `${baseUrl.replace(/\/$/, "")}/wp-json/wp/v2${endpoint}`;
    const headers = new Headers(options.headers || {});
    if (username && appPassword) {
      headers.set('Authorization', `Basic ${btoa(`${username}:${appPassword}`)}`);
    }
    if (options.body instanceof FormData) { }
    else if (options.body) { headers.set('Content-Type', 'application/json'); }
    const response = await fetch(url, { ...options, headers });
    if (!response.ok) {
      throw new Error(`WordPress API request failed with status ${response.status}: ${response.statusText}`);
    }
    return response;
  };
  \<close>
  No caller passes \<open>options.headers\<close>, so the header list starts empty.
\<close>

definition wpFetch ::
  "browser \<Rightarrow> string \<Rightarrow> string \<Rightarrow> string \<Rightarrow> string option \<Rightarrow> request_init
     \<Rightarrow> js_error + http_response" where
  "wpFetch env baseUrl endpoint username appPassword options =
     (let url = stripTrailingSlash baseUrl @ ''/wp-json/wp/v2'' @ endpoint;
          auth = (case appPassword of
                    None \<Rightarrow> []
                  | Some pw \<Rightarrow>
                      if username \<noteq> [] \<and> pw \<noteq> []
                      then [(''Authorization'', ''Basic '' @ btoa env (username @ '':'' @ pw))]
                      else []);
          ctype = (case init_body options of
                     None \<Rightarrow> []
                   | Some FormData \<Rightarrow> []
                   | Some (TextBody b) \<Rightarrow>
                       if b \<noteq> [] then [(''Content-Type'', ''application/json'')] else [])
      in case fetch env \<lparr>req_url = url, req_method = init_method options,
                          req_headers = auth @ ctype, req_body = init_body options\<rparr> of
           Inl e \<Rightarrow> Inl e
         | Inr response \<Rightarrow>
             if \<not> ok response
             then Inl (JsError PlainError
                    (''WordPress API request failed with status '' @ decimal (status response)
                       @ '': '' @ statusText response))
             else Inr response)"

text \<open>
  \<^verbatim>\<open>
  export const getTotalPosts = async (url, user, pass?) => {
    if (!url || !user) throw new Error("URL and Username are required.");
    const response = await wpFetch(url, '/posts?per_page=1', user, pass);
    const total = response.headers.get('X-WP-Total');
    if (total === null) { return 0; }
    return parseInt(total, 10);
  };
  \<close>
\<close>

definition getTotalPosts ::
  "browser \<Rightarrow> string \<Rightarrow> string \<Rightarrow> string option \<Rightarrow> js_error + js_number" where
  "getTotalPosts env url user pass =
     (if url = [] \<or> user = [] then Inl (JsError PlainError ''URL and Username are required.'')
      else
        case wpFetch env url ''/posts?per_page=1'' user pass
               \<lparr>init_method = None, init_body = None\<rparr> of
          Inl e \<Rightarrow> Inl e
        | Inr response \<Rightarrow>
            (case header response ''X-WP-Total'' of
               None \<Rightarrow> Inr (Num 0)
             | Some total_text \<Rightarrow> Inr (parseInt total_text)))"

text \<open>A site that answers the count request with status 200 and no headers.\<close>

definition headerless_response :: http_response where
  "headerless_response =
     \<lparr>ok = True, status = 200, statusText = ''OK'', header = (\<lambda>name. None)\<rparr>"

definition headerless_site :: browser where
  "headerless_site = \<lparr>fetch = (\<lambda>request. Inr headerless_response), btoa = (\<lambda>s. s)\<rparr>"

section \<open>The text providers: generateText and generateJsonText\<close>

datatype textAIProvider = Gemini | OpenAI | Groq | OpenRouter

text \<open>The string value of each member of \<open>TextAIProvider\<close>, as template literals print it.\<close>

fun providerName :: "textAIProvider \<Rightarrow> string" where
  "providerName Gemini = ''Google Gemini''"
| "providerName OpenAI = ''OpenAI''"
| "providerName Groq = ''Groq''"
| "providerName OpenRouter = ''OpenRouter''"

text \<open>\<open>AnalysisAIConfig\<close>; an absent optional field is \<open>None\<close>.\<close>

record analysisAIConfig =
  provider :: textAIProvider
  apiKey :: "string option"
  model :: "string option"

text \<open>
  A request that leaves the program: a chat-completion \<open>POST\<close> (URL, bearer key, model,
  prompt, \<open>max_tokens\<close> when the body has it, timeout in milliseconds), or a call of the
  Gemini client's \<open>generateContent\<close> (API key, model, contents, and whether a JSON
  response with a schema is asked for).
\<close>

datatype ai_request =
    ChatCompletion string string string string "nat option" nat
  | GenerateContent string string string bool

text \<open>
  The first choice of a chat-completion reply: \<open>message?.content\<close> and \<open>finish_reason\<close>,
  \<open>None\<close> when undefined. The body of a reply as \<open>response.json()\<close> reads it: not JSON
  (a \<open>SyntaxError\<close> with this message), or an object with its \<open>choices\<close>.
\<close>

record chat_choice =
  message_content :: "string option"
  finish_reason :: "string option"

datatype chat_body = NotJson string | ChatData "chat_choice list option"

text \<open>
  What \<open>fetch\<close> does with a chat-completion request: it rejects with an error, it is
  aborted by the timeout, or it resolves to a response (\<open>ok\<close>, \<open>status\<close>, body).
\<close>

datatype fetch_outcome =
    FetchRejected js_error
  | FetchAborted
  | FetchResponse bool nat chat_body

type_synonym trace = "ai_request event list"

text \<open>
  The world outside: \<open>process.env.API_KEY\<close>, and how the network and the Gemini client
  answer a request, given everything that happened before it. The Gemini client
  answers with the \<open>text\<close> of its response or rejects with an error.
\<close>

record ai_env =
  API_KEY :: "string option"
  fetch_chat :: "trace \<Rightarrow> ai_request \<Rightarrow> fetch_outcome"
  generateContent :: "trace \<Rightarrow> ai_request \<Rightarrow> js_error + string"

text \<open>\<open>!s\<close> for an optional string: undefined or empty.\<close>

definition missing :: "string option \<Rightarrow> bool" where
  "missing s = (case s of None \<Rightarrow> True | Some v \<Rightarrow> v = [])"

text \<open>
  \<^verbatim>\<open>
  const getGeminiClient = () => {
    if (!process.env.API_KEY) {
      throw new Error("Google Gemini API Key is not configured in the environment.");
    }
    return new GoogleGenAI({ apiKey: process.env.API_KEY });
  };
  \<close>
  The client is represented by its key.
\<close>

definition getGeminiClient :: "ai_env \<Rightarrow> js_error + string" where
  "getGeminiClient env =
     (case API_KEY env of
        None \<Rightarrow> Inl (JsError PlainError
                  ''Google Gemini API Key is not configured in the environment.'')
      | Some k \<Rightarrow>
          if k = [] then Inl (JsError PlainError
                  ''Google Gemini API Key is not configured in the environment.'')
          else Inr k)"

text \<open>
  \<open>timeout / 1000\<close> as a template literal prints it (for a timeout below \<open>10^21\<close>
  milliseconds): the whole seconds, and the milliseconds as a fraction without
  trailing zeros.
\<close>

definition secondsText :: "nat \<Rightarrow> string" where
  "secondsText ms =
     decimal (ms div 1000) @
     (if ms mod 1000 = 0 then []
      else CHR ''.'' #
        rev (dropWhile (\<lambda>c. c = CHR ''0'')
          (rev [digit_char (ms mod 1000 div 100), digit_char (ms mod 100 div 10),
                digit_char (ms mod 10)])))"

text \<open>
  \<^verbatim>\<open>
  const fetchWithTimeout = async (resource, options = {}, timeout = 90000) => {
      const controller = new AbortController();
      const id = setTimeout(() => controller.abort(), timeout);
      try {
          const response = await fetch(resource, { ...options, signal: controller.signal });
          clearTimeout(id);
          return response;
      } catch (error) {
          clearTimeout(id);
          if (error instanceof DOMException && error.name === 'AbortError') {
              throw new Error(`Request timed out after ${timeout / 1000} seconds.`);
          }
          throw error;
      }
  };
  \<close>
  The request is recorded in the trace; the answer depends on the trace before it.
\<close>

definition fetchWithTimeout ::
  "ai_env \<Rightarrow> ai_request \<Rightarrow> nat \<Rightarrow> trace \<Rightarrow> (js_error + bool \<times> nat \<times> chat_body) \<times> trace" where
  "fetchWithTimeout env request timeout w =
     ((case fetch_chat env w request of
         FetchRejected error \<Rightarrow> Inl error
       | FetchAborted \<Rightarrow>
           Inl (JsError PlainError
                  (''Request timed out after '' @ secondsText timeout @ '' seconds.''))
       | FetchResponse ok_flag status_code body \<Rightarrow> Inr (ok_flag, status_code, body)),
      w @ [Sent request])"

text \<open>
  The error for a reply without a usable completion.
  \<^verbatim>\<open>
  const finishReason = data.choices?.[0]?.finish_reason;
  if (finishReason === 'content_filter') {
      throw new Error("The AI provider blocked the response due to its safety filters.");
  }
  throw new Error("AI provider returned an empty or invalid response. ...");
  \<close>
\<close>

definition invalidResponse :: "string option \<Rightarrow> js_error" where
  "invalidResponse finishReason =
     (if finishReason = Some ''content_filter''
      then JsError PlainError ''The AI provider blocked the response due to its safety filters.''
      else JsError PlainError
        (''AI provider returned an empty or invalid response. This can happen if the model is ''
         @ ''overloaded or safety filters are triggered. Try a different model.''))"

text \<open>
  \<^verbatim>\<open>
  const callOpenAICompatibleAPI = async (apiUrl, apiKey, model, prompt, maxTokens?, timeout?) => {
      const body: any = { model: model, messages: [{ role: 'user', content: prompt }],
                          temperature: 0.1 };
      if (maxTokens) { body.max_tokens = maxTokens; }
      const response = await fetchWithTimeout(apiUrl, { method: 'POST', headers: {...},
          body: JSON.stringify(body) }, timeout);
      if (!response.ok) {
          ...
          throw new FetchError(`API request failed with status ${response.status}`, response.status);
      }
      const data = await response.json();
      if (!data.choices || data.choices.length === 0 || !data.choices[0].message?.content) {
          ... (see invalidResponse)
      }
      return data.choices[0].message.content;
  };
  \<close>
\<close>

definition callOpenAICompatibleAPI ::
  "ai_env \<Rightarrow> string \<Rightarrow> string \<Rightarrow> string \<Rightarrow> string \<Rightarrow> nat option \<Rightarrow> nat option
     \<Rightarrow> (ai_request, string) operation" where
  "callOpenAICompatibleAPI env apiUrl key modelName prompt maxTokens timeout w =
     (let max_tokens = (case maxTokens of
                          None \<Rightarrow> None
                        | Some n \<Rightarrow> if n = 0 then None else Some n);
          effective = (case timeout of None \<Rightarrow> 90000 | Some t \<Rightarrow> t)
      in case fetchWithTimeout env
                (ChatCompletion apiUrl key modelName prompt max_tokens effective) effective w of
           (Inl error, w') \<Rightarrow> (Inl error, w')
         | (Inr (ok_flag, status_code, body), w') \<Rightarrow>
             if \<not> ok_flag
             then (Inl (FetchError (''API request failed with status '' @ decimal status_code)
                          status_code), w')
             else
               (case body of
                  NotJson message \<Rightarrow> (Inl (JsError SyntaxError message), w')
                | ChatData None \<Rightarrow> (Inl (invalidResponse None), w')
                | ChatData (Some []) \<Rightarrow> (Inl (invalidResponse None), w')
                | ChatData (Some (choice # others)) \<Rightarrow>
                    (case message_content choice of
                       None \<Rightarrow> (Inl (invalidResponse (finish_reason choice)), w')
                     | Some text \<Rightarrow>
                         if text = [] then (Inl (invalidResponse (finish_reason choice)), w')
                         else (Inr text, w'))))"

text \<open>
  A call of \<open>ai.models.generateContent\<close>, by \<open>generateText\<close> (plain) and by
  \<open>generateJsonText\<close> (with \<open>responseMimeType\<close> and \<open>responseSchema\<close>); the model is
  always \<open>gemini-2.5-flash\<close>.
\<close>

definition geminiGenerate :: "ai_env \<Rightarrow> string \<Rightarrow> bool \<Rightarrow> (ai_request, string) operation" where
  "geminiGenerate env prompt structured w =
     (case getGeminiClient env of
        Inl error \<Rightarrow> (Inl error, w)
      | Inr key \<Rightarrow>
          (generateContent env w (GenerateContent key ''gemini-2.5-flash'' prompt structured),
           w @ [Sent (GenerateContent key ''gemini-2.5-flash'' prompt structured)]))"

text \<open>
  \<^verbatim>\<open>
  const generateText = async (analysisConfig, prompt, maxTokens?, timeout?) => {
      const { provider, apiKey, model } = analysisConfig;
      switch (provider) {
          case TextAIProvider.Gemini:
              const ai = getGeminiClient();
              const response = await ai.models.generateContent(
                  { model: "gemini-2.5-flash", contents: prompt });
              return response.text;
          case TextAIProvider.OpenAI:
              if (!apiKey) throw new Error("OpenAI API key is required.");
              return callOpenAICompatibleAPI('https://api.openai.com/v1/chat/completions',
                  apiKey, 'gpt-4-turbo', prompt, maxTokens, timeout);
          case TextAIProvider.Groq:
              if (!apiKey) throw new Error("Groq API key is required.");
              if (!model) throw new Error("Groq model name is required.");
              return callOpenAICompatibleAPI('https://api.groq.com/openai/v1/chat/completions',
                  apiKey, model, prompt, maxTokens, timeout);
          case TextAIProvider.OpenRouter:
              if (!apiKey) throw new Error("OpenRouter API key is required.");
              if (!model) throw new Error("OpenRouter model name is required.");
              return callOpenAICompatibleAPI('https://openrouter.ai/api/v1/chat/completions',
                  apiKey, model, prompt, maxTokens, timeout);
          default:
              throw new Error(`Unsupported text provider: ${provider}`);
      }
  };
  \<close>
  The \<open>default\<close> branch has no provider to run for.
\<close>

definition generateText ::
  "ai_env \<Rightarrow> analysisAIConfig \<Rightarrow> string \<Rightarrow> nat option \<Rightarrow> nat option
     \<Rightarrow> (ai_request, string) operation" where
  "generateText env analysisConfig prompt maxTokens timeout w =
     (case provider analysisConfig of
        Gemini \<Rightarrow> geminiGenerate env prompt False w
      | OpenAI \<Rightarrow>
          if missing (apiKey analysisConfig)
          then (Inl (JsError PlainError ''OpenAI API key is required.''), w)
          else callOpenAICompatibleAPI env ''https://api.openai.com/v1/chat/completions''
                 (the (apiKey analysisConfig)) ''gpt-4-turbo'' prompt maxTokens timeout w
      | Groq \<Rightarrow>
          if missing (apiKey analysisConfig)
          then (Inl (JsError PlainError ''Groq API key is required.''), w)
          else if missing (model analysisConfig)
          then (Inl (JsError PlainError ''Groq model name is required.''), w)
          else callOpenAICompatibleAPI env ''https://api.groq.com/openai/v1/chat/completions''
                 (the (apiKey analysisConfig)) (the (model analysisConfig))
                 prompt maxTokens timeout w
      | OpenRouter \<Rightarrow>
          if missing (apiKey analysisConfig)
          then (Inl (JsError PlainError ''OpenRouter API key is required.''), w)
          else if missing (model analysisConfig)
          then (Inl (JsError PlainError ''OpenRouter model name is required.''), w)
          else callOpenAICompatibleAPI env ''https://openrouter.ai/api/v1/chat/completions''
                 (the (apiKey analysisConfig)) (the (model analysisConfig))
                 prompt maxTokens timeout w)"

text \<open>
  \<^verbatim>\<open>
  const generateJsonText = async (analysisConfig, prompt, schema?) => {
      const { provider } = analysisConfig;
      if (provider === TextAIProvider.Gemini) {
          const ai = getGeminiClient();
          const response = await ai.models.generateContent({ model: "gemini-2.5-flash",
              contents: prompt,
              config: { responseMimeType: "application/json", responseSchema: schema } });
          return response.text;
      } else {
          const modifiedPrompt = `${prompt}\n\nIMPORTANT: Your response MUST be ...`;
          return await generateText(analysisConfig, modifiedPrompt);
      }
  };
  \<close>
\<close>

definition jsonInstruction :: string where
  "jsonInstruction =
     [CHR 0x0A, CHR 0x0A] @
     ''IMPORTANT: Your response MUST be a valid JSON object (or array of objects) and nothing ''
     @ ''else. Do not include markdown formatting, code blocks, or any explanatory text.''"

definition generateJsonText ::
  "ai_env \<Rightarrow> analysisAIConfig \<Rightarrow> string \<Rightarrow> (ai_request, string) operation" where
  "generateJsonText env analysisConfig prompt w =
     (if provider analysisConfig = Gemini then geminiGenerate env prompt True w
      else generateText env analysisConfig (prompt @ jsonInstruction) None None w)"

text \<open>
  Configurations of a provider that needs a model name, without one: with and without
  an API key. And a world in which every request is answered with status 200 and the
  text \<open>2\<close>.
\<close>

definition groq_without_model :: analysisAIConfig where
  "groq_without_model = \<lparr>provider = Groq, apiKey = Some ''gsk-test'', model = None\<rparr>"

definition openai_without_model :: analysisAIConfig where
  "openai_without_model = \<lparr>provider = OpenAI, apiKey = Some ''sk-test'', model = None\<rparr>"

definition groq_without_key_and_model :: analysisAIConfig where
  "groq_without_key_and_model = \<lparr>provider = Groq, apiKey = None, model = None\<rparr>"

definition answering_two :: ai_env where
  "answering_two =
     \<lparr>API_KEY = Some ''test-key'',
      fetch_chat = (\<lambda>w request. FetchResponse True 200
        (ChatData (Some [\<lparr>message_content = Some ''2'', finish_reason = Some ''stop''\<rparr>]))),
      generateContent = (\<lambda>w request. Inr ''2'')\<rparr>"

section \<open>The document tree\<close>

text \<open>
  The nodes of a parsed HTML document: text, comments, elements with their tag name,
  attributes and children, void elements (\<open>br\<close>, \<open>img\<close>, ...), which have no children
  and no end tag, and \<open>template\<close> elements, whose contents are not their children (no
  selector reaches them) but are serialised. A document is given by the children of
  its \<open>body\<close>.
\<close>

datatype node =
    TextNode string
  | CommentNode string
  | Element string "(string \<times> string) list" "node list"
  | VoidElement string "(string \<times> string) list"
  | TemplateElement "(string \<times> string) list" "node list"

text \<open>\<open>element.textContent\<close>: the text of the descendant text nodes, in document order.\<close>

fun textContent :: "node \<Rightarrow> string" where
  "textContent (TextNode s) = s"
| "textContent (CommentNode s) = []"
| "textContent (Element tag attrs children) = concat (map textContent children)"
| "textContent (VoidElement tag attrs) = []"
| "textContent (TemplateElement attrs contents) = []"

text \<open>
  \<open>querySelectorAll('p')\<close>: the \<open>p\<close> elements below the body, in document order (an
  element before its descendants).
\<close>

fun paragraphsOf :: "node \<Rightarrow> node list" where
  "paragraphsOf (Element tag attrs children) =
     (if tag = ''p'' then [Element tag attrs children] else [])
     @ concat (map paragraphsOf children)"
| "paragraphsOf other = []"

definition querySelectorAll_p :: "node list \<Rightarrow> node list" where
  "querySelectorAll_p body = concat (map paragraphsOf body)"

text \<open>
  \<open>paragraphs[k].insertAdjacentHTML('afterend', html)\<close> where \<open>paragraphs\<close> is the result
  of \<open>querySelectorAll('p')\<close>: the nodes that \<open>html\<close> parses to become the next siblings of
  the \<open>k\<close>-th \<open>p\<close> element in document order. \<open>insertAfter k fragment nodes\<close> does this in a
  list of sibling nodes and below them, \<open>insertInto\<close> below one node.
\<close>

fun isParagraph :: "node \<Rightarrow> bool" where
  "isParagraph (Element tag attrs children) = (tag = ''p'')"
| "isParagraph other = False"

fun insertAfter :: "nat \<Rightarrow> node list \<Rightarrow> node list \<Rightarrow> node list"
  and insertInto :: "nat \<Rightarrow> node list \<Rightarrow> node \<Rightarrow> node" where
  "insertAfter k fragment [] = []"
| "insertAfter k fragment (n # ns) =
     (if k < length (paragraphsOf n) then
        (if isParagraph n \<and> k = 0 then n # fragment @ ns
         else insertInto (if isParagraph n then k - 1 else k) fragment n # ns)
      else n # insertAfter (k - length (paragraphsOf n)) fragment ns)"
| "insertInto k fragment (Element tag attrs children) =
     Element tag attrs (insertAfter k fragment children)"
| "insertInto k fragment other = other"

text \<open>
  Serialisation (\<open>innerHTML\<close>), after the HTML fragment serialisation algorithm. Text is
  escaped (\<open>&\<close>, the no-break space, \<open><\<close> and \<open>>\<close>), except below the elements whose
  content is raw text; in attribute values \<open>&\<close>, the no-break space and the double
  quote are escaped.
\<close>

definition escapeText :: "string \<Rightarrow> string" where
  "escapeText s =
     concat (map (\<lambda>c. if c = CHR ''&'' then ''&amp;''
                       else if c = CHR 0xA0 then ''&nbsp;''
                       else if c = CHR ''<'' then ''&lt;''
                       else if c = CHR ''>'' then ''&gt;''
                       else [c]) s)"

definition escapeAttribute :: "string \<Rightarrow> string" where
  "escapeAttribute s =
     concat (map (\<lambda>c. if c = CHR ''&'' then ''&amp;''
                       else if c = CHR 0xA0 then ''&nbsp;''
                       else if c = CHR 0x22 then ''&quot;''
                       else [c]) s)"

definition serializeAttributes :: "(string \<times> string) list \<Rightarrow> string" where
  "serializeAttributes attrs =
     concat (map (\<lambda>(name, v). '' '' @ name @ ''='' @ [CHR 0x22] @ escapeAttribute v @ [CHR 0x22])
               attrs)"

definition rawTextElement :: "string \<Rightarrow> bool" where
  "rawTextElement tag =
     (tag \<in> set [''style'', ''script'', ''xmp'', ''iframe'', ''noembed'', ''noframes'',
                 ''plaintext''])"

fun serializeNode :: "bool \<Rightarrow> node \<Rightarrow> string" where
  "serializeNode raw (TextNode s) = (if raw then s else escapeText s)"
| "serializeNode raw (CommentNode s) = ''<!--'' @ s @ ''-->''"
| "serializeNode raw (Element tag attrs children) =
     ''<'' @ tag @ serializeAttributes attrs @ ''>''
     @ concat (map (serializeNode (rawTextElement tag)) children)
     @ ''</'' @ tag @ ''>''"
| "serializeNode raw (VoidElement tag attrs) = ''<'' @ tag @ serializeAttributes attrs @ ''>''"
| "serializeNode raw (TemplateElement attrs contents) =
     ''<template'' @ serializeAttributes attrs @ ''>''
     @ concat (map (serializeNode False) contents)
     @ ''</template>''"

definition innerHTML :: "node list \<Rightarrow> string" where
  "innerHTML body = concat (map (serializeNode False) body)"

text \<open>
  The browser's HTML parser, which the code calls in three ways:
  \<open>new DOMParser().parseFromString(s, 'text/html')\<close> (the children of the parsed
  document's body), the parsing of the argument of \<open>insertAdjacentHTML\<close>, and the
  parsing of a string assigned to \<open>doc.body.innerHTML\<close>.
\<close>

record dom_parser =
  parseFromString :: "string \<Rightarrow> node list"
  parseAdjacent :: "string \<Rightarrow> node list"
  parseInner :: "string \<Rightarrow> node list"

text \<open>
  \<^verbatim>\<open>
  const stripHtml = (html: string) => {
    const doc = new DOMParser().parseFromString(html, 'text/html');
    return doc.body.textContent || "";
  };
  \<close>
\<close>

definition stripHtml :: "dom_parser \<Rightarrow> string \<Rightarrow> string" where
  "stripHtml parser html = concat (map textContent (parseFromString parser html))"

text \<open>\<open>node.childNodes\<close>, and where a string occurs in another (the start indices).\<close>

fun childNodes :: "node \<Rightarrow> node list" where
  "childNodes (Element tag attrs children) = children"
| "childNodes other = []"

definition occurrences :: "string \<Rightarrow> string \<Rightarrow> nat list" where
  "occurrences pat s = filter (\<lambda>i. prefix pat (drop i s)) [0 ..< Suc (length s)]"

section \<open>generateImageBriefsAndAltsBatch\<close>

text \<open>
  \<open>JSON.stringify\<close> of the array of \<open>{id, title, excerpt}\<close> objects sent for a batch, and
  \<open>JSON.parse\<close>: a \<open>SyntaxError\<close>, a value that can be spread into \<open>push\<close> (its
  elements), or a value that cannot (the message of the resulting \<open>TypeError\<close>).
\<close>

datatype 'v parsed =
    ParseSyntaxError string
  | ParsedIterable "'v list"
  | ParsedOther string

record 'v json_api =
  json_stringify :: "(nat \<times> string \<times> string) list \<Rightarrow> string"
  json_parse :: "string \<Rightarrow> 'v parsed"

definition BATCH_SIZE :: nat where
  "BATCH_SIZE = 20"

definition DELAY_BETWEEN_BATCHES :: nat where
  "DELAY_BETWEEN_BATCHES = 1000"

text \<open>
  \<^verbatim>\<open>
  const postsToAnalyze = batch.map(p => ({ id: p.id, title: stripHtml(p.title.rendered),
    excerpt: stripHtml(p.excerpt.rendered) }));
  const briefPrompt = `You are an expert content assistant. ...
        Posts: ${JSON.stringify(postsToAnalyze)}`;
  \<close>
\<close>

definition briefPrompt :: "dom_parser \<Rightarrow> 'v json_api \<Rightarrow> wordPressPost list \<Rightarrow> string" where
  "briefPrompt parser json batch =
     ''You are an expert content assistant. Analyze the following WordPress ''
     @ ''posts and for each one, generate a concise, visually descriptive ''
     @ ''image brief and an SEO-friendly alt text.'' @ [CHR 0x0A] @ ''        - The ''
     @ [CHR 0x27] @ ''brief'' @ [CHR 0x27]
     @ '' should guide an AI image generator to create a relevant, high-quality '' @ ''image.''
     @ [CHR 0x0A] @ ''        - The '' @ [CHR 0x27] @ ''altText'' @ [CHR 0x27]
     @ '' should describe the resulting image for accessibility and SEO.'' @ [CHR 0x0A]
     @ ''        Posts: ''
     @ json_stringify json
         (map (\<lambda>p. (post_id p, stripHtml parser (title p), stripHtml parser (excerpt p))) batch)"

text \<open>The two errors the function makes itself, and what its \<open>catch\<close> clause rethrows.\<close>

definition noJsonError :: "analysisAIConfig \<Rightarrow> js_error" where
  "noJsonError analysisConfig =
     JsError PlainError (''The AI provider ('' @ providerName (provider analysisConfig)
       @ '') returned a response that did not contain valid JSON.'')"

definition malformedError :: "analysisAIConfig \<Rightarrow> js_error" where
  "malformedError analysisConfig =
     JsError PlainError (''The AI provider ('' @ providerName (provider analysisConfig)
       @ '') returned malformed JSON, even after cleanup.'')"

definition rethrown :: "analysisAIConfig \<Rightarrow> js_error \<Rightarrow> js_error" where
  "rethrown analysisConfig error =
     (case error of
        JsError SyntaxError message \<Rightarrow> malformedError analysisConfig
      | other \<Rightarrow> error)"

text \<open>
  The AI request of the batch that starts at index \<open>i\<close>, with the default retry policy
  (3 attempts, initial delay 2000 ms):
  \<^verbatim>\<open>retryableAIOperation(() => generateJsonText(analysisConfig, briefPrompt, briefSchema))\<close>
\<close>

definition batchRequest ::
  "dom_parser \<Rightarrow> 'v json_api \<Rightarrow> ai_env \<Rightarrow> analysisAIConfig \<Rightarrow> wordPressPost list \<Rightarrow> nat
     \<Rightarrow> (ai_request, string) operation" where
  "batchRequest parser json env analysisConfig posts i w =
     retryableAIOperation
       (generateJsonText env analysisConfig
          (briefPrompt parser json (take BATCH_SIZE (drop i posts)))) 3 2000 w"

text \<open>
  One iteration's \<open>try\<close> block with its \<open>catch\<close>, for the batch that starts at index \<open>i\<close>:
  \<^verbatim>\<open>
  const batch = posts.slice(i, i + BATCH_SIZE);
  ...
  try {
      const responseText = await retryableAIOperation(
          () => generateJsonText(analysisConfig, briefPrompt, briefSchema));
      const jsonString = extractJson(responseText);
      if (!jsonString) {
          throw new Error(`The AI provider (${analysisConfig.provider}) returned a response that did not contain valid JSON.`);
      }
      const batchResults = JSON.parse(jsonString);
      allResults.push(...batchResults);
      onProgress?.(Math.min(i + BATCH_SIZE, posts.length), posts.length);
  } catch (error) {
      if (error instanceof SyntaxError) {
        throw new Error(`The AI provider (${analysisConfig.provider}) returned malformed JSON, even after cleanup.`);
      }
      throw error;
  }
  \<close>
  It gives the batch's results, or the error that leaves the function.
\<close>

definition runBatch ::
  "dom_parser \<Rightarrow> 'v json_api \<Rightarrow> ai_env \<Rightarrow> analysisAIConfig \<Rightarrow> wordPressPost list \<Rightarrow> nat
     \<Rightarrow> trace \<Rightarrow> (js_error + 'v list) \<times> trace" where
  "runBatch parser json env analysisConfig posts i w =
     (case batchRequest parser json env analysisConfig posts i w of
           (Inl error, w1) \<Rightarrow> (Inl (rethrown analysisConfig error), w1)
         | (Inr responseText, w1) \<Rightarrow>
             (case extractJson responseText of
                None \<Rightarrow> (Inl (noJsonError analysisConfig), w1)
              | Some jsonString \<Rightarrow>
                  if jsonString = [] then (Inl (noJsonError analysisConfig), w1)
                  else
                    (case json_parse json jsonString of
                       ParseSyntaxError message \<Rightarrow> (Inl (malformedError analysisConfig), w1)
                     | ParsedOther message \<Rightarrow> (Inl (JsError TypeError message), w1)
                     | ParsedIterable batchResults \<Rightarrow>
                         (Inr batchResults,
                          w1 @ [Progress (min (i + BATCH_SIZE) (length posts)) (length posts)]))))"

text \<open>
  The loop from index \<open>i\<close> on, with the results collected so far:
  \<^verbatim>\<open>
  for (let i = 0; i < posts.length; i += BATCH_SIZE) {
    ... (see runBatch)
    if (i + BATCH_SIZE < posts.length) { await delay(DELAY_BETWEEN_BATCHES); }
  }
  return allResults;
  \<close>
\<close>

function batchLoop ::
  "dom_parser \<Rightarrow> 'v json_api \<Rightarrow> ai_env \<Rightarrow> analysisAIConfig \<Rightarrow> wordPressPost list \<Rightarrow> nat
     \<Rightarrow> 'v list \<Rightarrow> trace \<Rightarrow> (js_error + 'v list) \<times> trace" where
  "batchLoop parser json env analysisConfig posts i allResults w =
     (if i < length posts then
        (case runBatch parser json env analysisConfig posts i w of
           (Inl error, w1) \<Rightarrow> (Inl error, w1)
         | (Inr batchResults, w2) \<Rightarrow>
             batchLoop parser json env analysisConfig posts (i + BATCH_SIZE)
               (allResults @ batchResults)
               (if i + BATCH_SIZE < length posts then delay DELAY_BETWEEN_BATCHES w2 else w2))
      else (Inr allResults, w))"
  by pat_completeness auto
termination
  by (relation "measure (\<lambda>(parser, json, env, analysisConfig, posts, i, allResults, w).
        length posts - i)") (auto simp: BATCH_SIZE_def)

declare batchLoop.simps [simp del]

text \<open>
  \<^verbatim>\<open>
  export const generateImageBriefsAndAltsBatch = async (posts, analysisConfig, onProgress?) => {
    let allResults = [];
    onProgress?.(0, posts.length);
    for (...) { ... }
    return allResults;
  };
  \<close>
  Each call of \<open>onProgress\<close> is recorded in the trace.
\<close>

definition generateImageBriefsAndAltsBatch ::
  "dom_parser \<Rightarrow> 'v json_api \<Rightarrow> ai_env \<Rightarrow> analysisAIConfig \<Rightarrow> wordPressPost list
     \<Rightarrow> trace \<Rightarrow> (js_error + 'v list) \<times> trace" where
  "generateImageBriefsAndAltsBatch parser json env analysisConfig posts w =
     batchLoop parser json env analysisConfig posts 0 [] (w @ [Progress 0 (length posts)])"

text \<open>
  The state in which the loop starts its \<open>k\<close>-th iteration (index, results so far,
  trace), \<open>None\<close> when the loop has ended before.
\<close>

fun batchState ::
  "dom_parser \<Rightarrow> 'v json_api \<Rightarrow> ai_env \<Rightarrow> analysisAIConfig \<Rightarrow> wordPressPost list \<Rightarrow> trace
     \<Rightarrow> nat \<Rightarrow> (nat \<times> 'v list \<times> trace) option" where
  "batchState parser json env analysisConfig posts w 0 =
     Some (0, [], w @ [Progress 0 (length posts)])"
| "batchState parser json env analysisConfig posts w (Suc k) =
     (case batchState parser json env analysisConfig posts w k of
        None \<Rightarrow> None
      | Some (i, allResults, w0) \<Rightarrow>
          if i < length posts then
            (case runBatch parser json env analysisConfig posts i w0 of
               (Inl error, w1) \<Rightarrow> None
             | (Inr batchResults, w2) \<Rightarrow>
                 Some (i + BATCH_SIZE, allResults @ batchResults,
                       if i + BATCH_SIZE < length posts then delay DELAY_BETWEEN_BATCHES w2
                       else w2))
          else None)"

text \<open>
  For concrete runs: a parser for content without markup, a JSON interface that parses
  nothing, a provider whose server answers every request with status 429, and an
  OpenAI configuration.
\<close>

definition text_only_parser :: dom_parser where
  "text_only_parser =
     \<lparr>parseFromString = (\<lambda>s. [TextNode s]), parseAdjacent = (\<lambda>s. [TextNode s]),
      parseInner = (\<lambda>s. [TextNode s])\<rparr>"

definition rejecting_json :: "unit json_api" where
  "rejecting_json =
     \<lparr>json_stringify = (\<lambda>items. ''[]''),
      json_parse = (\<lambda>s. ParseSyntaxError ''Unexpected token'')\<rparr>"

definition always_limited :: ai_env where
  "always_limited =
     \<lparr>API_KEY = None,
      fetch_chat = (\<lambda>w request. FetchResponse False 429 (NotJson ''Too Many Requests'')),
      generateContent = (\<lambda>w request. Inl (JsError PlainError ''RESOURCE_EXHAUSTED''))\<rparr>"

definition openai_config :: analysisAIConfig where
  "openai_config = \<lparr>provider = OpenAI, apiKey = Some ''sk-test'', model = None\<rparr>"

section \<open>Image placement\<close>

definition placeholder :: string where
  "placeholder = ''<!-- INSERT_IMAGE_HERE -->''"

text \<open>The template literal \<^verbatim>\<open>`\n${placeholder}\n`\<close>.\<close>

definition adjacentHtml :: "string \<Rightarrow> string" where
  "adjacentHtml marker = [CHR 0x0A] @ marker @ [CHR 0x0A]"

text \<open>
  \<^verbatim>\<open>
  const insertPlaceholderHeuristically = (postContent, placeholder) => {
      const doc = parser.parseFromString(postContent, 'text/html');
      const paragraphs = Array.from(doc.body.querySelectorAll('p'));
      let targetIndex = -1;
      if (paragraphs.length > 2) { targetIndex = 1; }
      else if (paragraphs.length > 1) { targetIndex = 0; }
      if (targetIndex !== -1 && paragraphs[targetIndex]) {
          paragraphs[targetIndex].insertAdjacentHTML('afterend', `\n${placeholder}\n`);
      } else if (paragraphs.length > 0) {
          paragraphs[paragraphs.length - 1].insertAdjacentHTML('afterend', `\n${placeholder}\n`);
      } else {
          doc.body.innerHTML = `${placeholder}\n` + doc.body.innerHTML;
      }
      return doc.body.innerHTML;
  };
  \<close>
\<close>

definition insertPlaceholderHeuristically :: "dom_parser \<Rightarrow> string \<Rightarrow> string \<Rightarrow> string" where
  "insertPlaceholderHeuristically parser postContent marker =
     (let doc = parseFromString parser postContent;
          paragraphs = querySelectorAll_p doc;
          targetIndex = (if length paragraphs > 2 then 1
                         else if length paragraphs > 1 then 0
                         else - 1 :: int)
      in if targetIndex \<noteq> - 1 \<and> nat targetIndex < length paragraphs
         then innerHTML (insertAfter (nat targetIndex)
                (parseAdjacent parser (adjacentHtml marker)) doc)
         else if length paragraphs > 0
         then innerHTML (insertAfter (length paragraphs - 1)
                (parseAdjacent parser (adjacentHtml marker)) doc)
         else innerHTML (parseInner parser (marker @ [CHR 0x0A] @ innerHTML doc)))"

text \<open>
  \<^verbatim>\<open>
  const paragraphsToAnalyze = paragraphs.slice(0, 5)
      .map((p, index) => ({ num: index + 1, text: p.textContent?.trim() || '' }))
      .filter(p => p.text.length > 80);
  \<close>
  Each entry is the pair of \<open>num\<close> and \<open>text\<close>.
\<close>

definition paragraphsToAnalyze :: "node list \<Rightarrow> (nat \<times> string) list" where
  "paragraphsToAnalyze paragraphs =
     filter (\<lambda>(num, t). length t > 80)
       (map (\<lambda>(index, p). (index + 1, trim (textContent p))) (enumerate 0 (take 5 paragraphs)))"

text \<open>
  The prompt: the fixed text around the title and around the numbered paragraphs
  \<^verbatim>\<open>${paragraphsToAnalyze.map(p => `\n${p.num}. ${p.text}`).join('')}\<close>.
\<close>

definition placementPrompt :: "string \<Rightarrow> (nat \<times> string) list \<Rightarrow> string" where
  "placementPrompt cleanTitle analyzed =
     ''You are an expert in digital content layout and reader engagement. ''
     @ ''Your task is to find the most engaging and contextually appropriate ''
     @ ''location to insert an image within an article.'' @ [CHR 0x0A]
     @ ''I will provide the article'' @ [CHR 0x27]
     @ ''s title and its initial paragraphs, each numbered.'' @ [CHR 0x0A, CHR 0x0A]
     @ ''An image should be placed after a paragraph that either introduces ''
     @ ''a new concept, concludes an introductory section, or provides ''
     @ ''a natural pause for the reader. Avoid placing it after a very ''
     @ ''short paragraph or in the middle of a continuous thought. The ''
     @ ''goal is to break up the text visually and enhance the topic '' @ ''being discussed.''
     @ [CHR 0x0A, CHR 0x0A] @ ''Article Title: '' @ [CHR 0x22]
     @ cleanTitle
     @ [CHR 0x22, CHR 0x0A, CHR 0x0A] @ ''Paragraphs:'' @ [CHR 0x0A]
     @ concat (map (\<lambda>(num, t). [CHR 0x0A] @ decimal num @ ''. '' @ t) analyzed)
     @ [CHR 0x0A, CHR 0x0A] @ ''Based on the title and paragraphs, which paragraph number is ''
     @ ''the absolute best place to insert an image IMMEDIATELY AFTER?'' @ [CHR 0x0A]
     @ ''Respond with ONLY the paragraph number and nothing else.''"

text \<open>
  \<^verbatim>\<open>responseText.trim().match(/\d+/)?.[0] || '1'\<close>: the first run of decimal digits
  of the trimmed reply, \<open>1\<close> when it has none.
\<close>

definition firstDigits :: "string \<Rightarrow> string" where
  "firstDigits s = takeWhile isDigit (dropWhile (\<lambda>c. \<not> isDigit c) s)"

definition chosenText :: "string \<Rightarrow> string" where
  "chosenText responseText =
     (if firstDigits (trim responseText) = [] then ''1'' else firstDigits (trim responseText))"

text \<open>
  \<^verbatim>\<open>
  const chosenParagraphNumber = parseInt(responseText.trim().match(/\d+/)?.[0] || '1', 10);
  // Validate the AI's response. Fallback to 1 (after 1st paragraph) if invalid.
  const targetParagraphIndex = isNaN(chosenParagraphNumber) || chosenParagraphNumber < 1
      || chosenParagraphNumber > paragraphs.length
      ? 1
      : chosenParagraphNumber - 1;
  \<close>
\<close>

definition targetParagraphIndex :: "string \<Rightarrow> nat \<Rightarrow> nat" where
  "targetParagraphIndex responseText paragraphCount =
     (case parseInt (chosenText responseText) of
        NaN \<Rightarrow> 1
      | NegativeInfinity \<Rightarrow> 1
      | PositiveInfinity \<Rightarrow> 1
      | Num chosenParagraphNumber \<Rightarrow>
          if chosenParagraphNumber < 1 \<or> chosenParagraphNumber > int paragraphCount then 1
          else nat (chosenParagraphNumber - 1))"

text \<open>
  \<^verbatim>\<open>
  export const getContentWithImagePlaceholder = async (analysisConfig, postContent, postTitle) => {
      const placeholder = '<!-- INSERT_IMAGE_HERE -->';
      const cleanTitle = stripHtml(postTitle);
      const doc = parser.parseFromString(postContent, 'text/html');
      const paragraphs = Array.from(doc.body.querySelectorAll('p'));
      if (paragraphs.length < 3) {
          return insertPlaceholderHeuristically(postContent, placeholder);
      }
      try {
          const paragraphsToAnalyze = ...;
          if (paragraphsToAnalyze.length < 2) {
              return insertPlaceholderHeuristically(postContent, placeholder);
          }
          const prompt = ...;
          const responseText = await retryableAIOperation(
              () => generateText(analysisConfig, prompt, 10, 20000), 2, 500);
          const chosenParagraphNumber = ...;
          const targetParagraphIndex = ...;
          if (paragraphs[targetParagraphIndex]) {
              paragraphs[targetParagraphIndex].insertAdjacentHTML('afterend', `\n${placeholder}\n`);
              return doc.body.innerHTML;
          } else {
              return insertPlaceholderHeuristically(postContent, placeholder);
          }
      } catch (error) {
          return insertPlaceholderHeuristically(postContent, placeholder);
      }
  };
  \<close>
  The function returns the new content on every path; the trace records the requests
  and waits it made.
\<close>

definition getContentWithImagePlaceholder ::
  "dom_parser \<Rightarrow> ai_env \<Rightarrow> analysisAIConfig \<Rightarrow> string \<Rightarrow> string \<Rightarrow> trace \<Rightarrow> string \<times> trace" where
  "getContentWithImagePlaceholder parser env analysisConfig postContent postTitle w =
     (let cleanTitle = stripHtml parser postTitle;
          doc = parseFromString parser postContent;
          paragraphs = querySelectorAll_p doc
      in if length paragraphs < 3
         then (insertPlaceholderHeuristically parser postContent placeholder, w)
         else if length (paragraphsToAnalyze paragraphs) < 2
         then (insertPlaceholderHeuristically parser postContent placeholder, w)
         else
           (case retryableAIOperation
                   (generateText env analysisConfig
                      (placementPrompt cleanTitle (paragraphsToAnalyze paragraphs))
                      (Some 10) (Some 20000)) 2 500 w of
              (Inl error, w') \<Rightarrow>
                (insertPlaceholderHeuristically parser postContent placeholder, w')
            | (Inr responseText, w') \<Rightarrow>
                if targetParagraphIndex responseText (length paragraphs) < length paragraphs
                then (innerHTML
                        (insertAfter (targetParagraphIndex responseText (length paragraphs))
                           (parseAdjacent parser (adjacentHtml placeholder)) doc), w')
                else (insertPlaceholderHeuristically parser postContent placeholder, w')))"

text \<open>
  The nodes the marker's HTML stands for: a line break, the comment, a line break.
\<close>

definition markerNodes :: "node list" where
  "markerNodes =
     [TextNode [CHR 0x0A], CommentNode '' INSERT_IMAGE_HERE '', TextNode [CHR 0x0A]]"

text \<open>
  Example posts: three paragraphs of 81 characters each, three short paragraphs, and a
  paragraph followed by a comment that ends with \<open>--!>\<close>; and a parser that reads each
  of these posts as the given tree (an HTML parser ends a comment at \<open>--!>\<close> as it does
  at \<open>-->\<close>), reads the marker's HTML as \<open>markerNodes\<close>, and any other string as text.
\<close>

definition long_paragraph :: "char \<Rightarrow> node" where
  "long_paragraph c = Element ''p'' [] [TextNode (replicate 81 c)]"

definition long_post :: "node list" where
  "long_post = [long_paragraph CHR ''a'', long_paragraph CHR ''b'', long_paragraph CHR ''c'']"

definition short_post :: "node list" where
  "short_post =
     [Element ''p'' [] [TextNode ''One.''], Element ''p'' [] [TextNode ''Two.''],
      Element ''p'' [] [TextNode ''Three.'']]"

definition bang_post_html :: string where
  "bang_post_html = ''<p>Hello</p><!-- INSERT_IMAGE_HERE --!>''"

definition bang_post :: "node list" where
  "bang_post = [Element ''p'' [] [TextNode ''Hello''], CommentNode '' INSERT_IMAGE_HERE '']"

definition example_parser :: dom_parser where
  "example_parser =
     \<lparr>parseFromString =
        (\<lambda>s. if s = innerHTML long_post then long_post
             else if s = innerHTML short_post then short_post
             else if s = bang_post_html then bang_post
             else [TextNode s]),
      parseAdjacent = (\<lambda>s. if s = adjacentHtml placeholder then markerNodes else [TextNode s]),
      parseInner =
        (\<lambda>s. if prefix placeholder s
             then [CommentNode '' INSERT_IMAGE_HERE '', TextNode (drop (length placeholder) s)]
             else [TextNode s])\<rparr>"

text \<open>Worlds in which every request is answered with the text \<open>9\<close>, or with prose.\<close>

definition answering :: "string \<Rightarrow> ai_env" where
  "answering reply =
     \<lparr>API_KEY = Some ''test-key'',
      fetch_chat = (\<lambda>w request. FetchResponse True 200
        (ChatData (Some [\<lparr>message_content = Some reply, finish_reason = Some ''stop''\<rparr>]))),
      generateContent = (\<lambda>w request. Inr reply)\<rparr>"

section \<open>Properties of the retry wrapper\<close>

lemma invocations_append [simp]: "invocations (u @ v) = invocations u + invocations v"
  by (simp add: invocations_def)

lemma invocations_simps [simp]:
  "invocations [] = 0"
  "invocations (Invoked # w) = Suc (invocations w)"
  "invocations (Slept ms # w) = invocations w"
  by (simp_all add: invocations_def)

lemma total_delay_append [simp]: "total_delay (u @ v) = total_delay u + total_delay v"
  by (simp add: total_delay_def)

lemma total_delay_simps [simp]:
  "total_delay [] = 0"
  "total_delay (Invoked # w) = total_delay w"
  "total_delay (Slept ms # w) = ms + total_delay w"
  by (simp_all add: total_delay_def)

lemma invocations_backoff [simp]: "invocations (backoff d i k :: 'r event list) = k"
  by (induction k arbitrary: i) simp_all

lemma total_delay_backoff:
  "total_delay (backoff d i k :: 'r event list) = d * (\<Sum>j = i..<i + k. 2 ^ j)"
proof (induction k arbitrary: i)
  case 0
  show ?case by simp
next
  case (Suc k)
  have "(\<Sum>j = i..<i + Suc k. (2::nat) ^ j) = 2 ^ i + (\<Sum>j = Suc i..<Suc i + k. 2 ^ j)"
    by (simp add: sum.atLeast_Suc_lessThan)
  then show ?case
    using Suc.IH [of "Suc i"] by (simp add: distrib_left)
qed

lemma isRateLimitError_message: "isRateLimitError e \<Longrightarrow> (errorMessage e = None) = False"
  by (cases e) (simp_all add: isRateLimitError_def)

lemma testFailure_message: "errorMessage e = Some m \<Longrightarrow> testFailure e = e"
  by (cases e) simp_all

text \<open>
  The loop's behaviour on a scripted operation: while the script keeps answering with
  rate-limit failures the loop alternates one invocation and one wait.
\<close>

lemma retryLoop_scripted_backoff:
  assumes "\<forall>j < k. \<exists>e. script (invocations w + j) = Inl e \<and> isRateLimitError e"
    and "i + k \<le> retries"
  shows "\<exists>last. retryLoop (scripted script) retries d i lastError w =
           retryLoop (scripted script) retries d (i + k) last (w @ backoff d i k)"
  using assms
proof (induction k arbitrary: i lastError w)
  case 0
  show ?case by auto
next
  case (Suc k)
  from Suc.prems(1) obtain e where e: "script (invocations w) = Inl e" "isRateLimitError e"
    by force
  let ?w = "w @ [Invoked, Slept (d * 2 ^ i)]"
  have step: "retryLoop (scripted script) retries d i lastError w =
              retryLoop (scripted script) retries d (Suc i) (Some e) ?w"
    using Suc.prems(2) e
    by (subst retryLoop.simps) (simp add: scripted_def delay_def isRateLimitError_message)
  have "\<forall>j < k. \<exists>e. script (invocations ?w + j) = Inl e \<and> isRateLimitError e"
    using Suc.prems(1) by auto
  from Suc.IH [OF this, of "Suc i" "Some e"] Suc.prems(2)
  obtain last where
    "retryLoop (scripted script) retries d (Suc i) (Some e) ?w =
       retryLoop (scripted script) retries d (Suc i + k) last (?w @ backoff d (Suc i) k)"
    by auto
  with step show ?case by auto
qed

lemma retryLoop_scripted_only_after_rate_limit:
  "invocations w \<le> j \<Longrightarrow>
   Suc j < invocations (snd (retryLoop (scripted script) retries d i lastError w)) \<Longrightarrow>
   \<exists>e. script j = Inl e \<and> isRateLimitError e"
proof (induction "retries - i" arbitrary: i lastError w)
  case 0
  then show ?case
    by (subst (asm) retryLoop.simps) simp
next
  case (Suc n)
  note prems = Suc.prems
  show ?case
  proof (cases "i < retries")
    case False
    with prems show ?thesis
      by (subst (asm) retryLoop.simps) simp
  next
    case True
    show ?thesis
    proof (cases "script (invocations w)")
      case (Inr v)
      with True prems show ?thesis
        by (subst (asm) retryLoop.simps) (simp add: scripted_def)
    next
      case (Inl e)
      show ?thesis
      proof (cases "isRateLimitError e")
        case False
        with True Inl prems show ?thesis
          by (subst (asm) retryLoop.simps) (simp add: scripted_def split: if_splits)
      next
        case rl: True
        have unfold: "retryLoop (scripted script) retries d i lastError w =
              retryLoop (scripted script) retries d (Suc i) (Some e)
                (delay (d * 2 ^ i) (w @ [Invoked]))"
          using True Inl rl
          by (subst retryLoop.simps) (simp add: scripted_def isRateLimitError_message)
        show ?thesis
        proof (cases "j = invocations w")
          case True
          with Inl rl show ?thesis by simp
        next
          case False
          with prems(1) have "invocations (delay (d * 2 ^ i) (w @ [Invoked])) \<le> j"
            by (simp add: delay_def)
          moreover have "n = retries - Suc i"
            using Suc.hyps(2) by simp
          ultimately show ?thesis
            using Suc.hyps(1) [of "Suc i" "delay (d * 2 ^ i) (w @ [Invoked])" "Some e"]
              prems(2) unfold
            by simp
        qed
      qed
    qed
  qed
qed

text \<open>
  C1. With \<open>retries = 3\<close> and initial delay \<open>d\<close>, when the first two attempts fail with
  rate-limit failures and the third succeeds with \<open>v\<close>: the run is attempt, wait \<open>d\<close>,
  attempt, wait \<open>2 d\<close>, attempt; it returns \<open>v\<close>; exactly three attempts are made and the
  waits add up to \<open>d * (1 + 2)\<close>.
\<close>

theorem retry_two_rate_limits_then_success:
  fixes script :: "nat \<Rightarrow> js_error + 'a" and d :: nat
  assumes "script 0 = Inl e0" and "isRateLimitError e0"
    and "script 1 = Inl e1" and "isRateLimitError e1"
    and "script 2 = Inr v"
  shows "retryableAIOperation (scripted script) 3 d ([] :: 'r event list) =
           (Inr v, [Invoked, Slept d, Invoked, Slept (d * 2), Invoked])
       \<and> invocations (snd (retryableAIOperation (scripted script) 3 d ([] :: 'r event list))) = 3
       \<and> total_delay (snd (retryableAIOperation (scripted script) 3 d ([] :: 'r event list)))
           = d * (1 + 2)"
proof -
  have run: "retryableAIOperation (scripted script) 3 d ([] :: 'r event list) =
           (Inr v, [Invoked, Slept d, Invoked, Slept (d * 2), Invoked])"
    using assms
    by (simp add: retryableAIOperation_def retryLoop.simps scripted_def delay_def
        numeral_2_eq_2 isRateLimitError_message)
  show ?thesis
    unfolding run by simp
qed

theorem retry_two_rate_limits_then_success_witness:
  "retryableAIOperation (scripted twice_limited) 3 2000 ([] :: unit event list) =
     (Inr 7, [Invoked, Slept 2000, Invoked, Slept 4000, Invoked])
   \<and> total_delay (snd (retryableAIOperation (scripted twice_limited) 3 2000 ([] :: unit event list)))
       = 6000"
  using retry_two_rate_limits_then_success
    [where 'r = unit, of twice_limited "FetchError ''API request failed with status 429'' 429"
        "FetchError ''API request failed with status 429'' 429" 7 2000]
  by (simp add: twice_limited_def isRateLimitError_def)


text \<open>
  C2 (as amended). Whatever the wrapped operation does, attempt \<open>j + 1\<close> is made only if
  attempt \<open>j\<close> failed with an error that the code's test \<open>isRateLimitError\<close> accepts: a
  \<open>FetchError\<close> of status 429, or an error whose message (for a value that is not an
  \<open>Error\<close>, its JSON text) contains \<open>429\<close> or \<open>RESOURCE_EXHAUSTED\<close>. And when attempt \<open>k\<close> is
  the first to fail with an error that the test does not accept, the failing attempt is
  the last event (no wait and no further attempt follow it), so a first attempt that
  fails this way gives one attempt and no delay at all; the outcome is that very error,
  except for a thrown value without JSON text, for which it is the \<open>TypeError\<close> of the
  test itself.
\<close>

theorem retry_only_on_rate_limit:
  fixes script :: "nat \<Rightarrow> js_error + 'a"
  shows "(Suc j < invocations (snd (retryableAIOperation (scripted script) retries d
                                      ([] :: 'r event list)))
            \<longrightarrow> (\<exists>e. script j = Inl e \<and> isRateLimitError e))
       \<and> ((\<forall>i < k. \<exists>e. script i = Inl e \<and> isRateLimitError e)
            \<and> script k = Inl error \<and> \<not> isRateLimitError error \<and> k < retries
            \<longrightarrow> (errorMessage error \<noteq> None
                  \<longrightarrow> retryableAIOperation (scripted script) retries d ([] :: 'r event list)
                        = (Inl error, backoff d 0 k @ [Invoked]))
                \<and> (error = ThrownUnserializable t
                  \<longrightarrow> retryableAIOperation (scripted script) retries d ([] :: 'r event list)
                        = (Inl (JsError TypeError t), backoff d 0 k @ [Invoked]))
                \<and> (errorMessage error \<noteq> None \<or> (\<exists>t'. error = ThrownUnserializable t'))
                \<and> invocations (backoff d 0 k @ [Invoked] :: 'r event list) = Suc k
                \<and> total_delay (backoff d 0 k @ [Invoked] :: 'r event list)
                    = total_delay (backoff d 0 k :: 'r event list))"
proof (intro conjI impI)
  assume "Suc j < invocations (snd (retryableAIOperation (scripted script) retries d
                                      ([] :: 'r event list)))"
  then show "\<exists>e. script j = Inl e \<and> isRateLimitError e"
    using retryLoop_scripted_only_after_rate_limit [of "[] :: 'r event list" j script retries d 0 None]
    by (simp add: retryableAIOperation_def)
next
  assume h: "(\<forall>i < k. \<exists>e. script i = Inl e \<and> isRateLimitError e)
            \<and> script k = Inl error \<and> \<not> isRateLimitError error \<and> k < retries"
  then have "\<forall>i < k. \<exists>e. script (invocations ([] :: 'r event list) + i) = Inl e \<and> isRateLimitError e"
    by simp
  from retryLoop_scripted_backoff [OF this, of 0 retries d None] h
  obtain last where "retryLoop (scripted script) retries d 0 None ([] :: 'r event list) =
           retryLoop (scripted script) retries d k last (backoff d 0 k)"
    by auto
  moreover have "retryLoop (scripted script) retries d k last (backoff d 0 k :: 'r event list) =
           (Inl (testFailure error), backoff d 0 k @ [Invoked])"
    using h
    by (subst retryLoop.simps) (auto simp add: scripted_def testFailure_message)
  ultimately have run: "retryableAIOperation (scripted script) retries d ([] :: 'r event list)
                  = (Inl (testFailure error), backoff d 0 k @ [Invoked])"
    by (simp add: retryableAIOperation_def)
  {
    assume "errorMessage error \<noteq> None"
    then show "retryableAIOperation (scripted script) retries d ([] :: 'r event list)
                  = (Inl error, backoff d 0 k @ [Invoked])"
      using run by (auto simp add: testFailure_message)
  }
  {
    assume "error = ThrownUnserializable t"
    then show "retryableAIOperation (scripted script) retries d ([] :: 'r event list)
                  = (Inl (JsError TypeError t), backoff d 0 k @ [Invoked])"
      using run by simp
  }
  show "errorMessage error \<noteq> None \<or> (\<exists>t'. error = ThrownUnserializable t')"
    by (cases error) simp_all
qed simp_all

theorem retry_only_on_rate_limit_witness:
  "retryableAIOperation (scripted limited_then_broken) 3 2000 ([] :: unit event list)
     = (Inl (JsError PlainError ''AI provider returned an empty or invalid response.''),
        [Invoked, Slept 2000, Invoked])
   \<and> isRateLimitError (JsError PlainError ''got status: 429 Too Many Requests'')
   \<and> retryableAIOperation (scripted throwing_undefined) 3 2000 ([] :: unit event list)
     = (Inl (JsError TypeError
               (''Cannot read properties of undefined (reading '' @ [CHR 0x27] @ ''includes''
                @ [CHR 0x27] @ '')'')),
        [Invoked])"
proof -
  have rl: "isRateLimitError (JsError PlainError ''got status: 429 Too Many Requests'')"
    by (simp add: isRateLimitError_def js_includes_def sublist_Cons_right prefix_code)
  have nrl: "\<not> isRateLimitError
               (JsError PlainError ''AI provider returned an empty or invalid response.'')"
    by (simp add: isRateLimitError_def js_includes_def sublist_Cons_right prefix_code)
  have b1: "backoff 2000 0 1 = ([Invoked, Slept 2000] :: unit event list)"
    by simp
  have 1: "retryableAIOperation (scripted limited_then_broken) 3 2000 ([] :: unit event list)
     = (Inl (JsError PlainError ''AI provider returned an empty or invalid response.''),
        [Invoked, Slept 2000, Invoked])"
    using retry_only_on_rate_limit
      [where 'r = unit and script = limited_then_broken and retries = 3 and d = 2000
         and k = 1 and j = 0
         and error = "JsError PlainError ''AI provider returned an empty or invalid response.''"]
      rl nrl b1
    by (simp add: limited_then_broken_def)
  have 2: "retryableAIOperation (scripted throwing_undefined) 3 2000 ([] :: unit event list)
     = (Inl (JsError TypeError
               (''Cannot read properties of undefined (reading '' @ [CHR 0x27] @ ''includes''
                @ [CHR 0x27] @ '')'')),
        [Invoked])"
    using retry_only_on_rate_limit
      [where 'r = unit and script = throwing_undefined and retries = 3 and d = 2000
         and k = 0 and j = 0 and error = thrown_undefined
         and t = "''Cannot read properties of undefined (reading '' @ [CHR 0x27] @ ''includes''
                @ [CHR 0x27] @ '')''"]
    by (simp add: throwing_undefined_def thrown_undefined_def isRateLimitError_def)
  from 1 2 rl show ?thesis by simp
qed

text \<open>
  The claim as stated fails: a reply that is not JSON, reported by a \<open>SyntaxError\<close> whose
  message gives the position 429, is neither an HTTP 429 status nor a resource-exhausted
  signal, yet the operation is attempted three times, with waits of 2, 4 and 8 seconds,
  and the error that comes out is not the one the attempts failed with.
\<close>

theorem retry_on_message_mentioning_429:
  "retryableAIOperation (scripted always_malformed) 3 2000 ([] :: unit event list)
     = (Inl (JsError PlainError
               ''AI request failed after 3 attempts. Last error: Unexpected token < in JSON at position 429''),
        [Invoked, Slept 2000, Invoked, Slept 4000, Invoked, Slept 8000])
   \<and> always_malformed 0 = Inl malformed_at_429
   \<and> \<not> rateLimitFailure malformed_at_429"
proof -
  have rl: "isRateLimitError malformed_at_429"
    by (simp add: malformed_at_429_def isRateLimitError_def js_includes_def sublist_Cons_right
        prefix_code)
  have nrl: "\<not> rateLimitFailure malformed_at_429"
    by (simp add: malformed_at_429_def rateLimitFailure_def js_includes_def sublist_Cons_right
        prefix_code)
  have msg: "errorMessage malformed_at_429 = Some ''Unexpected token < in JSON at position 429''"
    by (simp add: malformed_at_429_def)
  have "retryableAIOperation (scripted always_malformed) 3 2000 ([] :: unit event list)
     = (Inl (JsError PlainError
               ''AI request failed after 3 attempts. Last error: Unexpected token < in JSON at position 429''),
        [Invoked, Slept 2000, Invoked, Slept 4000, Invoked, Slept 8000])"
    using rl msg
    by (simp add: retryableAIOperation_def retryLoop.simps scripted_def delay_def
        always_malformed_def exhaustedError_def decimal.simps digit_char_def)
  with nrl show ?thesis
    by (simp add: always_malformed_def)
qed
section \<open>Properties of extractJson\<close>

lemma first_success_append:
  "first_success f (xs @ ys) =
     (case first_success f xs of Some y \<Rightarrow> Some y | None \<Rightarrow> first_success f ys)"
  by (induction xs) (auto split: option.splits)

lemma first_success_None: "(\<And>x. x \<in> set xs \<Longrightarrow> f x = None) \<Longrightarrow> first_success f xs = None"
  by (induction xs) auto

lemma first_success_upt:
  assumes "n < N" and "f n = Some y" and "\<And>m. m < n \<Longrightarrow> f m = None"
  shows "first_success f [0 ..< N] = Some y"
proof -
  have "[0 ..< N] = [0 ..< n] @ n # [Suc n ..< N]"
  proof -
    have "[0 ..< n + (N - n)] = [0 ..< n] @ [n ..< n + (N - n)]"
      by (rule upt_add_eq_append) simp
    then show ?thesis
      using assms(1) by (simp add: upt_conv_Cons)
  qed
  moreover have "first_success f [0 ..< n] = None"
    using assms(3) by (intro first_success_None) simp
  ultimately show ?thesis
    using assms(2) by (simp add: first_success_append)
qed

lemma first_success_rev_upt: "f n = Some y \<Longrightarrow> first_success f (rev [0 ..< Suc n]) = Some y"
  by simp

lemma backtick_not_whitespace [simp]: "\<not> isWhitespace (CHR 0x60)"
  by (simp add: isWhitespace_def)

lemma fence_not_Nil [simp]: "fence \<noteq> []" "length fence = 3"
  by (simp_all add: fence_def)

lemma dropWhile_ws_fence [simp]: "dropWhile isWhitespace (fence @ r) = fence @ r"
  by (simp add: fence_def)

lemma closesFence_iff: "closesFence r \<longleftrightarrow> prefix fence (dropWhile isWhitespace r)"
proof
  assume "closesFence r"
  then obtain m where "m \<in> set (rev [0 ..< Suc (length (takeWhile isWhitespace r))])"
      "prefix fence (drop m r)"
    unfolding closesFence_def list_ex_iff by blast
  then have m: "m \<le> length (takeWhile isWhitespace r)" "prefix fence (drop m r)"
    by auto
  have "m = length (takeWhile isWhitespace r)"
  proof (rule ccontr)
    assume "m \<noteq> length (takeWhile isWhitespace r)"
    with m(1) have lt: "m < length (takeWhile isWhitespace r)" by simp
    then have "isWhitespace (takeWhile isWhitespace r ! m)"
      using nth_mem set_takeWhileD by fastforce
    moreover have "takeWhile isWhitespace r ! m = r ! m"
      using lt by (simp add: takeWhile_nth)
    moreover have "m < length r"
      using lt length_takeWhile_le [of isWhitespace r] by simp
    then have "drop m r = r ! m # drop (Suc m) r"
      by (simp add: Cons_nth_drop_Suc)
    with m(2) have "r ! m = CHR 0x60"
      by (simp add: fence_def)
    ultimately show False by simp
  qed
  with m(2) show "prefix fence (dropWhile isWhitespace r)"
    by (simp add: dropWhile_eq_drop)
next
  assume "prefix fence (dropWhile isWhitespace r)"
  then have "prefix fence (drop (length (takeWhile isWhitespace r)) r)"
    by (simp add: dropWhile_eq_drop)
  then show "closesFence r"
    unfolding closesFence_def list_ex_iff by (intro bexI) auto
qed

lemma fenceStartsBefore_iff: "fenceStartsBefore n s \<longleftrightarrow> (\<exists>i < n. prefix fence (drop i s))"
  by (auto simp: fenceStartsBefore_def list_ex_iff)

lemma fenceStartsBefore_shift:
  assumes "\<not> fenceStartsBefore (length (u @ b)) (u @ b @ rest)"
  shows "\<not> fenceStartsBefore (length b) (b @ rest)"
proof
  assume "fenceStartsBefore (length b) (b @ rest)"
  then obtain i where "i < length b" "prefix fence (drop i (b @ rest))"
    by (auto simp: fenceStartsBefore_iff)
  then have "length u + i < length (u @ b)" "prefix fence (drop (length u + i) (u @ b @ rest))"
    by simp_all
  with assms show False
    unfolding fenceStartsBefore_iff by blast
qed

lemma lazyBody_fenced:
  assumes "\<not> fenceStartsBefore (length b) (b @ fence @ post)"
  shows "lazyBody (b @ fence @ post) = Some (rev (dropWhile isWhitespace (rev b)))"
proof -
  define body where "body = rev (dropWhile isWhitespace (rev b))"
  define ws2 where "ws2 = rev (takeWhile isWhitespace (rev b))"
  have b: "b = body @ ws2"
    unfolding body_def ws2_def
    by (metis rev_append rev_rev_ident takeWhile_dropWhile_id)
  have ws2: "\<And>x. x \<in> set ws2 \<Longrightarrow> isWhitespace x"
    unfolding ws2_def by (auto dest: set_takeWhileD)
  let ?r = "b @ fence @ post"
  let ?f = "\<lambda>n. if closesFence (drop n ?r) then Some (take n ?r) else None"
  have "first_success ?f [0 ..< Suc (length ?r)] = Some body"
  proof (rule first_success_upt)
    show "length body < Suc (length ?r)"
      by (simp add: b)
    have "dropWhile isWhitespace (ws2 @ fence @ post) = fence @ post"
      using ws2 by (simp add: dropWhile_append2)
    then show "?f (length body) = Some body"
      by (simp add: b closesFence_iff)
  next
    fix m assume m: "m < length body"
    then have ne: "body \<noteq> []" by auto
    have "last body = hd (dropWhile isWhitespace (rev b))"
      using ne unfolding body_def by (simp add: last_rev)
    moreover have "dropWhile isWhitespace (rev b) \<noteq> []"
      using ne unfolding body_def by simp
    ultimately have nws: "\<not> isWhitespace (last body)"
      using hd_dropWhile by metis
    have "last body \<in> set (drop m body)"
      using m ne by (metis drop_eq_Nil last_drop last_in_set not_le)
    then have mem: "last body \<in> set (drop m b)"
      using m by (simp add: b)
    define k where "k = length (takeWhile isWhitespace (drop m b))"
    have dw: "dropWhile isWhitespace (drop m b) = drop (k + m) b"
      unfolding k_def by (simp add: dropWhile_eq_drop)
    have "dropWhile isWhitespace (drop m b) \<noteq> []"
      using mem nws by (auto simp: dropWhile_eq_Nil_conv)
    then have km: "k + m < length b"
      unfolding dw by simp
    have "drop m ?r = drop m b @ fence @ post"
      using m by (simp add: b)
    then have "dropWhile isWhitespace (drop m ?r) = drop (k + m) b @ fence @ post"
      using mem nws dw by (simp add: dropWhile_append1)
    also have "\<dots> = drop (k + m) ?r"
      using km by simp
    finally have "closesFence (drop m ?r) \<longleftrightarrow> prefix fence (drop (k + m) ?r)"
      by (simp add: closesFence_iff)
    moreover have "\<not> prefix fence (drop (k + m) ?r)"
      using assms km unfolding fenceStartsBefore_iff by blast
    ultimately show "?f m = None" by simp
  qed
  then show ?thesis
    by (simp add: lazyBody_def body_def)
qed

lemma afterLang_fenced:
  assumes "\<not> fenceStartsBefore (length between) (between @ fence @ post)"
  shows "afterLang (between @ fence @ post) = Some (trim between)"
proof -
  let ?r = "between @ fence @ post"
  define u where "u = takeWhile isWhitespace between"
  define b where "b = dropWhile isWhitespace between"
  have between: "between = u @ b"
    by (simp add: u_def b_def)
  have dw: "dropWhile isWhitespace ?r = b @ fence @ post"
  proof (cases "\<forall>x \<in> set between. isWhitespace x")
    case True
    then have "b = []" by (simp add: b_def)
    with True show ?thesis by (simp add: dropWhile_append2)
  next
    case False
    then show ?thesis by (auto simp: b_def dropWhile_append1)
  qed
  have "\<not> fenceStartsBefore (length b) (b @ fence @ post)"
    using assms fenceStartsBefore_shift [of u b "fence @ post"] by (simp add: between)
  then have "lazyBody (b @ fence @ post) = Some (trim between)"
    by (simp add: lazyBody_fenced trim_def b_def)
  then have "lazyBody (drop (length (takeWhile isWhitespace ?r)) ?r) = Some (trim between)"
    using dw by (simp add: dropWhile_eq_drop)
  then show ?thesis
    unfolding afterLang_def by (rule first_success_rev_upt)
qed

lemma matchAt_fenced:
  assumes "lang = ''json'' \<or> lang = [] \<and> \<not> prefix ''json'' between"
    and "\<not> fenceStartsBefore (length between) (between @ fence @ post)"
  shows "matchAt (fence @ lang @ between @ fence @ post) = Some (trim between)"
proof -
  have al: "afterLang (between @ fence @ post) = Some (trim between)"
    using assms(2) by (rule afterLang_fenced)
  from assms(1) show ?thesis
  proof
    assume "lang = ''json''"
    then show ?thesis
      using al by (simp add: matchAt_def)
  next
    assume h: "lang = [] \<and> \<not> prefix ''json'' between"
    have "\<not> prefix ''json'' (between @ fence @ post)"
    proof
      assume "prefix ''json'' (between @ fence @ post)"
      with h obtain us where us: "''json'' = between @ us" "prefix us (fence @ post)"
        by (auto simp: prefix_append)
      with h have "us \<noteq> []" by auto
      with us(2) have "CHR 0x60 \<in> set us"
        by (cases us) (auto simp: fence_def)
      then have "CHR 0x60 \<in> set ''json''"
        unfolding us(1) by simp
      then show False by simp
    qed
    with h show ?thesis
      using al by (simp add: matchAt_def)
  qed
qed

lemma codeBlockMatch_fenced:
  assumes "text = pre @ fence @ lang @ between @ fence @ post"
    and "\<not> fenceStartsBefore (length pre) text"
    and "lang = ''json'' \<or> lang = [] \<and> \<not> prefix ''json'' between"
    and "\<not> fenceStartsBefore (length between) (between @ fence @ post)"
  shows "codeBlockMatch text = Some (trim between)"
  unfolding codeBlockMatch_def
proof (rule first_success_upt)
  show "length pre < Suc (length text)"
    by (simp add: assms(1))
  show "matchAt (drop (length pre) text) = Some (trim between)"
    using matchAt_fenced [OF assms(3,4)] by (simp add: assms(1))
next
  fix m assume "m < length pre"
  with assms(2) have "\<not> prefix fence (drop m text)"
    unfolding fenceStartsBefore_iff by blast
  then show "matchAt (drop m text) = None"
    by (simp add: matchAt_def)
qed

lemma first_success_SomeD: "first_success f xs = Some y \<Longrightarrow> \<exists>x \<in> set xs. f x = Some y"
  by (induction xs) (auto split: option.splits)

lemma afterLang_SomeD:
  assumes "afterLang r = Some c"
  shows "\<exists>mid post. r = mid @ fence @ post"
proof -
  from assms obtain k where "lazyBody (drop k r) = Some c"
    unfolding afterLang_def by (blast dest: first_success_SomeD)
  then obtain n where "closesFence (drop n (drop k r))"
    unfolding lazyBody_def by (auto dest!: first_success_SomeD split: if_splits)
  then have "prefix fence (drop (length (takeWhile isWhitespace (drop (n + k) r)) + (n + k)) r)"
    by (simp add: closesFence_iff dropWhile_eq_drop)
  then obtain j post where "drop j r = fence @ post"
    unfolding prefix_def by blast
  then have "r = take j r @ fence @ post"
    by (metis append_take_drop_id)
  then show ?thesis by blast
qed

lemma prefix_json_drop: "prefix ''json'' r \<Longrightarrow> r = ''json'' @ drop 4 r"
  by (auto simp: prefix_def)

lemma matchAt_SomeD:
  assumes "matchAt s = Some c"
  shows "\<exists>mid post. s = fence @ mid @ fence @ post"
proof -
  define r where "r = drop 3 s"
  from assms have pf: "prefix fence s"
    by (auto simp: matchAt_def split: if_splits)
  then have s: "s = fence @ r"
    by (auto simp: prefix_def r_def)
  from assms pf have "afterLang r = Some c
      \<or> (prefix ''json'' r \<and> afterLang (drop 4 r) = Some c)"
    unfolding matchAt_def Let_def r_def [symmetric]
    by (auto split: if_splits option.splits)
  then show ?thesis
  proof
    assume "afterLang r = Some c"
    then obtain mid post where "r = mid @ fence @ post"
      by (blast dest: afterLang_SomeD)
    with s show ?thesis by metis
  next
    assume h: "prefix ''json'' r \<and> afterLang (drop 4 r) = Some c"
    then obtain mid post where "drop 4 r = mid @ fence @ post"
      by (blast dest: afterLang_SomeD)
    moreover from h have "r = ''json'' @ drop 4 r"
      by (blast intro: prefix_json_drop)
    ultimately have "s = fence @ (''json'' @ mid) @ fence @ post"
      using s by (metis append_assoc)
    then show ?thesis by blast
  qed
qed

lemma codeBlockMatch_None:
  assumes "\<not> (\<exists>pre mid post. text = pre @ fence @ mid @ fence @ post)"
  shows "codeBlockMatch text = None"
  unfolding codeBlockMatch_def
proof (rule first_success_None)
  fix i
  show "matchAt (drop i text) = None"
  proof (rule ccontr)
    assume "matchAt (drop i text) \<noteq> None"
    then obtain c where "matchAt (drop i text) = Some c" by auto
    then obtain mid post where "drop i text = fence @ mid @ fence @ post"
      by (blast dest: matchAt_SomeD)
    then have "text = take i text @ fence @ mid @ fence @ post"
      by (metis append_take_drop_id)
    with assms show False by blast
  qed
qed

lemma first_of_two:
  "(let i1 = indexOf s c1; i2 = indexOf s c2
    in if i1 = - 1 then i2 else if i2 = - 1 then i1 else min i1 i2) =
   (if c1 \<in> set s \<or> c2 \<in> set s
    then int (length (takeWhile (\<lambda>x. x \<noteq> c1 \<and> x \<noteq> c2) s)) else - 1)"
  by (induction s) (auto simp: indexOf_def Let_def)

lemma lastIndexOf_rev:
  "lastIndexOf s c = (if c \<in> set s then int (length s) - 1 - indexOf (rev s) c else - 1)"
  by (simp add: lastIndexOf_def indexOf_def)

lemma indexOf_bounds: "c \<in> set s \<Longrightarrow> 0 \<le> indexOf s c \<and> indexOf s c < int (length s)"
proof -
  assume "c \<in> set s"
  then have "length (takeWhile (\<lambda>x. x \<noteq> c) s) < length s"
    by (induction s) auto
  then show ?thesis
    using \<open>c \<in> set s\<close> by (simp add: indexOf_def)
qed

lemma last_of_two:
  "max (lastIndexOf s c1) (lastIndexOf s c2) =
   (if c1 \<in> set s \<or> c2 \<in> set s
    then int (length s) - 1 - int (length (takeWhile (\<lambda>x. x \<noteq> c1 \<and> x \<noteq> c2) (rev s)))
    else - 1)"
proof -
  have b1: "c1 \<in> set s \<Longrightarrow> 0 \<le> indexOf (rev s) c1 \<and> indexOf (rev s) c1 < int (length s)"
    using indexOf_bounds [of c1 "rev s"] by simp
  have b2: "c2 \<in> set s \<Longrightarrow> 0 \<le> indexOf (rev s) c2 \<and> indexOf (rev s) c2 < int (length s)"
    using indexOf_bounds [of c2 "rev s"] by simp
  have n1: "c1 \<notin> set s \<Longrightarrow> indexOf (rev s) c1 = - 1"
    by (simp add: indexOf_def)
  have n2: "c2 \<notin> set s \<Longrightarrow> indexOf (rev s) c2 = - 1"
    by (simp add: indexOf_def)
  show ?thesis
    using first_of_two [of "rev s" c1 c2] b1 b2 n1 n2
    by (cases "c1 \<in> set s"; cases "c2 \<in> set s")
       (auto simp: lastIndexOf_rev Let_def split: if_splits)
qed

lemma bracketSpan_eq:
  "bracketSpan text =
     (if \<not> list_ex isOpener text then None
      else if \<not> list_ex isCloser text then None
      else if int (length text) - 1 - int (length (takeWhile (\<lambda>x. \<not> isCloser x) (rev text)))
              < int (length (takeWhile (\<lambda>x. \<not> isOpener x) text)) then None
      else Some (trim (substring text (int (length (takeWhile (\<lambda>x. \<not> isOpener x) text)))
             (int (length text) - int (length (takeWhile (\<lambda>x. \<not> isCloser x) (rev text)))))))"
proof -
  have o: "(\<lambda>x. \<not> isOpener x) = (\<lambda>x. x \<noteq> CHR ''{'' \<and> x \<noteq> CHR ''['')"
    and c: "(\<lambda>x. \<not> isCloser x) = (\<lambda>x. x \<noteq> CHR ''}'' \<and> x \<noteq> CHR '']'')"
    by (auto simp: isOpener_def isCloser_def)
  have eo: "list_ex isOpener text \<longleftrightarrow> CHR ''{'' \<in> set text \<or> CHR ''['' \<in> set text"
    and ec: "list_ex isCloser text \<longleftrightarrow> CHR ''}'' \<in> set text \<or> CHR '']'' \<in> set text"
    by (auto simp: list_ex_iff isOpener_def isCloser_def)
  have len: "int (length (takeWhile (\<lambda>x. x \<noteq> CHR ''}'' \<and> x \<noteq> CHR '']'') (rev text)))
               \<le> int (length text)"
    using length_takeWhile_le [of _ "rev text"] by (metis length_rev of_nat_le_iff)
  show ?thesis
    unfolding bracketSpan_def
    using first_of_two [of "text" "CHR ''{''" "CHR ''[''"]
      last_of_two [of "text" "CHR ''}''" "CHR '']''"] len
    by (auto simp: Let_def o c eo ec)
qed

lemma trim_no_ws_ends:
  "\<not> isWhitespace x \<Longrightarrow> \<not> isWhitespace y \<Longrightarrow> trim (x # m @ [y]) = x # m @ [y]"
  by (simp add: trim_def)

lemma opener_closer_not_ws: "isOpener x \<Longrightarrow> \<not> isWhitespace x" "isCloser x \<Longrightarrow> \<not> isWhitespace x"
  by (auto simp: isOpener_def isCloser_def isWhitespace_def)

lemma substring_middle:
  "substring (a @ m @ z) (int (length a)) (int (length a) + int (length m)) = m"
proof -
  have "nat (int (length a) + int (length m)) = length a + length m"
    by (simp add: nat_add_distrib)
  then show ?thesis
    by (simp add: substring_def Let_def min_def max_def)
qed

lemma takeWhile_not_append:
  "\<not> list_ex Q xs \<Longrightarrow> takeWhile (\<lambda>c. \<not> Q c) (xs @ ys) = xs @ takeWhile (\<lambda>c. \<not> Q c) ys"
  by (induction xs) auto

lemma takeWhile_not_rev_append:
  "\<not> list_ex Q xs \<Longrightarrow>
     takeWhile (\<lambda>c. \<not> Q c) (rev xs @ ys) = rev xs @ takeWhile (\<lambda>c. \<not> Q c) ys"
  using takeWhile_not_append [of Q "rev xs" ys] by (simp add: list_ex_iff)

lemma trim_id:
  assumes "s \<noteq> []" and "\<not> isWhitespace (hd s)" and "\<not> isWhitespace (last s)"
  shows "trim s = s"
proof -
  have "dropWhile isWhitespace s = s"
    using assms(1,2) by (cases s) auto
  moreover have "dropWhile isWhitespace (rev s) = rev s"
    using assms(1,3) by (cases "rev s") (auto simp: last_rev [symmetric] simp del: last_rev)
  ultimately show ?thesis
    by (simp add: trim_def)
qed

lemma trim_idem: "trim (trim s) = trim s"
proof (cases "trim s = []")
  case True
  have "trim [] = []" by (simp add: trim_def)
  with True show ?thesis by simp
next
  case False
  define d where "d = dropWhile isWhitespace s"
  have t: "trim s = rev (dropWhile isWhitespace (rev d))"
    by (simp add: trim_def d_def)
  have ne: "dropWhile isWhitespace (rev d) \<noteq> []"
    using False t by simp
  then have "\<not> isWhitespace (hd (dropWhile isWhitespace (rev d)))"
    by (rule hd_dropWhile)
  then have l: "\<not> isWhitespace (last (trim s))"
    using ne by (simp add: t last_rev)
  have "d = trim s @ rev (takeWhile isWhitespace (rev d))"
    unfolding t by (metis rev_append rev_rev_ident takeWhile_dropWhile_id)
  then have "hd d = hd (trim s)"
    using False by (metis hd_append2)
  moreover have "d \<noteq> []"
    using ne by auto
  then have "\<not> isWhitespace (hd d)"
    unfolding d_def by (rule hd_dropWhile)
  ultimately show ?thesis
    using False l by (simp add: trim_id)
qed

lemma bracketSpan_bracketed:
  assumes "text = a @ (x # mid @ [y]) @ z" and "isOpener x" and "isCloser y"
    and "\<not> list_ex isOpener a" and "\<not> list_ex isCloser z"
  shows "bracketSpan text = Some (x # mid @ [y])"
proof -
  have tw1: "takeWhile (\<lambda>c. \<not> isOpener c) text = a"
    using assms(2,4) by (simp add: assms(1) takeWhile_not_append)
  have "rev text = rev z @ (y # rev mid @ [x]) @ rev a"
    by (simp add: assms(1))
  then have tw2: "takeWhile (\<lambda>c. \<not> isCloser c) (rev text) = rev z"
    using assms(3,5) by (simp add: takeWhile_not_rev_append)
  have ex: "list_ex isOpener text" "list_ex isCloser text"
    using assms(2,3) by (auto simp: assms(1) list_ex_iff)
  have len: "int (length text) - int (length z) = int (length a) + int (length (x # mid @ [y]))"
    by (simp add: assms(1))
  have "substring text (int (length a)) (int (length text) - int (length z)) = x # mid @ [y]"
    unfolding len unfolding assms(1) by (rule substring_middle)
  then show ?thesis
    using ex assms(2,3)
    by (simp add: bracketSpan_eq tw1 tw2 trim_no_ws_ends opener_closer_not_ws)
       (simp add: assms(1))
qed

lemma bracketSpan_unbracketed:
  assumes "text = u @ v" and "\<not> list_ex isOpener u" and "\<not> list_ex isCloser v"
  shows "bracketSpan text = None"
proof (cases "list_ex isOpener text \<and> list_ex isCloser text")
  case False
  then show ?thesis by (auto simp: bracketSpan_eq)
next
  case True
  have "takeWhile (\<lambda>c. \<not> isOpener c) text = u @ takeWhile (\<lambda>c. \<not> isOpener c) v"
    using assms(2) by (simp add: assms(1) takeWhile_not_append)
  then have s: "length u \<le> length (takeWhile (\<lambda>c. \<not> isOpener c) text)"
    by simp
  from True assms(3) have cu: "list_ex isCloser u"
    by (auto simp: assms(1) list_ex_iff)
  have "takeWhile (\<lambda>c. \<not> isCloser c) (rev text) = rev v @ takeWhile (\<lambda>c. \<not> isCloser c) (rev u)"
    using assms(3) by (simp add: assms(1) takeWhile_not_rev_append)
  then have e: "length (takeWhile (\<lambda>c. \<not> isCloser c) (rev text)) \<ge> length v"
    by simp
  have "int (length text) - 1 - int (length (takeWhile (\<lambda>c. \<not> isCloser c) (rev text)))
          < int (length (takeWhile (\<lambda>c. \<not> isOpener c) text))"
    using s e by (simp add: assms(1))
  then show ?thesis
    by (simp add: bracketSpan_eq)
qed



lemma ex_least_fence:
  assumes "prefix fence (drop i s)"
  shows "\<exists>j \<le> i. prefix fence (drop j s) \<and> \<not> fenceStartsBefore j s"
proof -
  define j where "j = (LEAST k. prefix fence (drop k s))"
  have "prefix fence (drop j s)"
    unfolding j_def using assms by (rule LeastI)
  moreover have "j \<le> i"
    unfolding j_def using assms by (rule Least_le)
  moreover have "\<not> fenceStartsBefore j s"
    unfolding fenceStartsBefore_iff j_def using not_less_Least by blast
  ultimately show ?thesis by blast
qed

lemma fenced_cases: "noFencedBlock input \<or> (\<exists>between. fencedBlock input between)"
proof (cases "noFencedBlock input")
  case True
  then show ?thesis by simp
next
  case False
  then obtain pre0 mid0 post0 where d0: "input = pre0 @ fence @ mid0 @ fence @ post0"
    unfolding noFencedBlock_def by blast
  then have "prefix fence (drop (length pre0) input)" by simp
  then obtain i where i: "i \<le> length pre0" "prefix fence (drop i input)"
      "\<not> fenceStartsBefore i input"
    using ex_least_fence by blast
  define pre where "pre = take i input"
  define rest where "rest = drop (i + 3) input"
  have input: "input = pre @ fence @ rest"
  proof -
    from i(2) obtain r where "drop i input = fence @ r" by (auto simp: prefix_def)
    moreover from this have "drop 3 (drop i input) = r" by simp
    ultimately show ?thesis
      unfolding pre_def rest_def by (metis add.commute append_take_drop_id drop_drop)
  qed
  have lp: "length pre = i"
    using i(1) d0 by (simp add: pre_def)
  have "drop (length pre0 + 3 + length mid0) input = fence @ post0"
    by (simp add: d0)
  moreover have "drop (length pre0 + 3 + length mid0) input
      = drop (length pre0 - i + length mid0) rest"
    using i(1) by (simp add: rest_def add.commute add.left_commute)
  ultimately have fr: "prefix fence (drop (length pre0 - i + length mid0) rest)"
    by simp
  define lang where "lang = (if prefix ''json'' rest then ''json'' else [])"
  define rest' where "rest' = drop (length lang) rest"
  have rest: "rest = lang @ rest'"
    unfolding rest'_def lang_def by (auto simp: prefix_def)
  have "\<exists>k. prefix fence (drop k rest')"
  proof (cases "prefix ''json'' rest")
    case False
    then show ?thesis using fr by (auto simp: rest'_def lang_def)
  next
    case True
    then have l: "lang = ''json''"
      by (simp add: lang_def)
    have r4: "rest = ''json'' @ rest'"
      using rest unfolding l .
    let ?k = "length pre0 - i + length mid0"
    have "4 \<le> ?k"
    proof (rule ccontr)
      assume "\<not> 4 \<le> ?k"
      then have "?k < 4" by simp
      moreover from fr have "drop ?k rest \<noteq> []" by auto
      then have "?k < length rest" by simp
      then have "drop ?k rest = rest ! ?k # drop (Suc ?k) rest"
        by (simp add: Cons_nth_drop_Suc)
      with fr have "rest ! ?k = CHR 0x60" by (simp add: fence_def)
      ultimately show False
        unfolding r4 by (auto simp: nth_append nth_Cons' split: if_splits)
    qed
    then have "drop ?k (''json'' @ rest') = drop (?k - length ''json'') rest'"
      by (subst drop_append) simp
    with fr have "prefix fence (drop (?k - length ''json'') rest')"
      unfolding r4 by metis
    then show ?thesis by blast
  qed
  then obtain j where j: "prefix fence (drop j rest')" "\<not> fenceStartsBefore j rest'"
    using ex_least_fence by blast
  define between where "between = take j rest'"
  from j(1) obtain post where "drop j rest' = fence @ post" by (auto simp: prefix_def)
  then have rest'': "rest' = between @ fence @ post"
    unfolding between_def by (metis append_take_drop_id)
  have lb: "length between = j"
    using j(1) unfolding between_def by (cases "j \<le> length rest'") auto
  have "input = pre @ fence @ lang @ between @ fence @ post"
    using input rest rest'' by simp
  moreover have "\<not> fenceStartsBefore (length pre) input"
    using i(3) lp by simp
  moreover have "lang = ''json'' \<or> lang = [] \<and> \<not> prefix ''json'' between"
  proof (cases "prefix ''json'' rest")
    case True
    then show ?thesis by (simp add: lang_def)
  next
    case False
    then have "lang = []" by (simp add: lang_def)
    moreover have "\<not> prefix ''json'' between"
      using False rest rest'' \<open>lang = []\<close> by (auto simp: prefix_def)
    ultimately show ?thesis by simp
  qed
  moreover have "\<not> fenceStartsBefore (length between) (between @ fence @ post)"
    using j(2) lb rest'' by simp
  ultimately have "fencedBlock input between"
    unfolding fencedBlock_def by blast
  then show ?thesis by blast
qed

lemma bracket_cases: "unbracketed input \<or> (\<exists>span. bracketed input span)"
proof (cases "list_ex isOpener input")
  case False
  then have "input = input @ [] \<and> \<not> list_ex isOpener input \<and> \<not> list_ex isCloser []"
    by simp
  then show ?thesis unfolding unbracketed_def by blast
next
  case True
  define a where "a = takeWhile (\<lambda>c. \<not> isOpener c) input"
  define r where "r = dropWhile (\<lambda>c. \<not> isOpener c) input"
  have input: "input = a @ r" by (simp add: a_def r_def)
  have na: "\<not> list_ex isOpener a"
    unfolding a_def list_ex_iff by (auto dest: set_takeWhileD)
  have "r \<noteq> []"
    using True unfolding r_def list_ex_iff by (auto simp: dropWhile_eq_Nil_conv)
  then obtain x r' where r: "r = x # r'" by (cases r) auto
  have x: "isOpener x"
    using hd_dropWhile [of "\<lambda>c. \<not> isOpener c" input] \<open>r \<noteq> []\<close> r unfolding r_def by auto
  show ?thesis
  proof (cases "list_ex isCloser r'")
    case False
    moreover have "\<not> isCloser x"
      using x by (auto simp: isOpener_def isCloser_def)
    ultimately have "\<not> list_ex isCloser r" by (simp add: r)
    with input na show ?thesis unfolding unbracketed_def by blast
  next
    case True
    define z where "z = rev (takeWhile (\<lambda>c. \<not> isCloser c) (rev r'))"
    define m where "m = rev (dropWhile (\<lambda>c. \<not> isCloser c) (rev r'))"
    have r': "r' = m @ z"
      unfolding m_def z_def by (metis rev_append rev_rev_ident takeWhile_dropWhile_id)
    have nz: "\<not> list_ex isCloser z"
      unfolding z_def list_ex_iff by (auto dest: set_takeWhileD)
    have "dropWhile (\<lambda>c. \<not> isCloser c) (rev r') \<noteq> []"
      using True unfolding list_ex_iff by (auto simp: dropWhile_eq_Nil_conv)
    then have mne: "m \<noteq> []" and "isCloser (hd (dropWhile (\<lambda>c. \<not> isCloser c) (rev r')))"
      using hd_dropWhile [of "\<lambda>c. \<not> isCloser c" "rev r'"] by (auto simp: m_def)
    then have y: "isCloser (last m)"
      by (simp add: m_def last_rev)
    have "input = a @ (x # butlast m @ [last m]) @ z"
      using input r r' mne by simp
    then have "bracketed input (x # butlast m @ [last m])"
      unfolding bracketed_def using x y na nz by blast
    then show ?thesis by blast
  qed
qed




section \<open>Properties of the backlog sort\<close>

lemma insert_by_comparePosts:
  "insert_by comparePosts x ys = insort_key (\<lambda>p. - priorityScore p) x ys"
  by (induction ys) (auto simp: comparePosts_def Let_def)

lemma sortedPosts_sort_key: "sortedPosts ps = sort_key (\<lambda>p. - priorityScore p) ps"
proof -
  have "insert_by comparePosts = insort_key (\<lambda>p. - priorityScore p)"
    by (intro ext) (rule insert_by_comparePosts)
  then show ?thesis
    by (simp add: sortedPosts_def sort_by_def sort_key_def)
qed

lemma sortedPosts_scores:
  assumes "i < j" and "j < length (sortedPosts ps)"
  shows "priorityScore (sortedPosts ps ! j) \<le> priorityScore (sortedPosts ps ! i)"
proof -
  let ?s = "sortedPosts ps"
  have "sorted (map (\<lambda>p. - priorityScore p) ?s)"
    by (simp add: sortedPosts_sort_key)
  then have "map (\<lambda>p. - priorityScore p) ?s ! i \<le> map (\<lambda>p. - priorityScore p) ?s ! j"
    using assms by (intro sorted_nth_mono) simp_all
  then show ?thesis
    using assms by simp
qed

text \<open>
  C7 (as amended). The sorted backlog is a rearrangement of the crawled posts in which
  a post with a featured image stands before a post without one only if the latter has
  at least 1000 more embedded images; so when every post has fewer than 1000 embedded
  images, every post without a featured image comes before every post with one. Two
  posts without a featured image are in ascending order of \<open>imageCount\<close>.
\<close>

theorem backlog_priority_order:
  assumes "i < j" and "j < length (sortedPosts ps)"
  shows "mset (sortedPosts ps) = mset ps
       \<and> (featured_media (sortedPosts ps ! i) \<noteq> 0 \<and> featured_media (sortedPosts ps ! j) = 0
            \<longrightarrow> imageCount (sortedPosts ps ! i) + 1000 \<le> imageCount (sortedPosts ps ! j))
       \<and> ((\<forall>p \<in> set ps. imageCount p < 1000) \<and> featured_media (sortedPosts ps ! j) = 0
            \<longrightarrow> featured_media (sortedPosts ps ! i) = 0)
       \<and> (featured_media (sortedPosts ps ! i) = 0 \<and> featured_media (sortedPosts ps ! j) = 0
            \<longrightarrow> imageCount (sortedPosts ps ! i) \<le> imageCount (sortedPosts ps ! j))"
proof -
  let ?s = "sortedPosts ps"
  have m: "mset ?s = mset ps"
    by (simp add: sortedPosts_sort_key)
  have sc: "priorityScore (?s ! j) \<le> priorityScore (?s ! i)"
    using assms by (rule sortedPosts_scores)
  have a: "featured_media (?s ! i) \<noteq> 0 \<and> featured_media (?s ! j) = 0
            \<longrightarrow> imageCount (?s ! i) + 1000 \<le> imageCount (?s ! j)"
    using sc by (auto simp: priorityScore_def)
  have "?s ! j \<in> set ?s"
    using assms by simp
  then have "?s ! j \<in> set ps"
    using m by (metis set_mset_mset)
  then have b: "(\<forall>p \<in> set ps. imageCount p < 1000) \<and> featured_media (?s ! j) = 0
            \<longrightarrow> featured_media (?s ! i) = 0"
    using a by fastforce
  have c: "featured_media (?s ! i) = 0 \<and> featured_media (?s ! j) = 0
            \<longrightarrow> imageCount (?s ! i) \<le> imageCount (?s ! j)"
    using sc by (auto simp: priorityScore_def)
  from m a b c show ?thesis by blast
qed

lemma ex_sorted: "sortedPosts example_backlog = [bare_post 3 0 0, bare_post 2 0 5, bare_post 1 5 3]"
  by (simp add: sortedPosts_def sort_by_def example_backlog_def comparePosts_def
      priorityScore_def bare_post_def)

theorem backlog_priority_order_witness:
  "sortedPosts example_backlog = [bare_post 3 0 0, bare_post 2 0 5, bare_post 1 5 3]
   \<and> mset (sortedPosts example_backlog) = mset example_backlog
   \<and> featured_media (sortedPosts example_backlog ! 1) = 0
   \<and> featured_media (sortedPosts example_backlog ! 0) = 0
   \<and> imageCount (sortedPosts example_backlog ! 0) \<le> imageCount (sortedPosts example_backlog ! 1)"
proof -
  have s: "sortedPosts example_backlog = [bare_post 3 0 0, bare_post 2 0 5, bare_post 1 5 3]"
    by (simp add: sortedPosts_def sort_by_def example_backlog_def comparePosts_def
      priorityScore_def bare_post_def)
  have "(0::nat) < 1" "1 < length (sortedPosts example_backlog)"
    by (simp_all add: s)
  from backlog_priority_order [OF this] show ?thesis
    by (simp add: s bare_post_def)
qed

text \<open>
  The claim as stated fails: in \<open>crowded_backlog\<close> the post with a featured image stays
  ahead of the post without one, which has 1200 embedded images.
\<close>

theorem featured_post_sorted_first:
  "featured_media (crowded_backlog ! 0) \<noteq> 0
   \<and> featured_media (crowded_backlog ! 1) = 0
   \<and> sortedPosts crowded_backlog = crowded_backlog"
  by (simp add: sortedPosts_def sort_by_def crowded_backlog_def comparePosts_def
      priorityScore_def bare_post_def)

section \<open>Properties of getTotalPosts\<close>

text \<open>
  C10. When the count request succeeds (\<open>wpFetch\<close> returns a response) and the response
  has no \<open>X-WP-Total\<close> header, \<open>getTotalPosts\<close> returns 0, the value it returns for a
  site that reports 0 posts; and it raises only when the URL or the user name is empty
  or \<open>wpFetch\<close> itself raised, with \<open>wpFetch\<close>'s error.
\<close>

theorem getTotalPosts_missing_header:
  "(url \<noteq> [] \<and> user \<noteq> []
      \<and> wpFetch env url ''/posts?per_page=1'' user pass \<lparr>init_method = None, init_body = None\<rparr>
           = Inr response
      \<and> header response ''X-WP-Total'' = None
      \<longrightarrow> getTotalPosts env url user pass = Inr (Num 0))
   \<and> (url \<noteq> [] \<and> user \<noteq> []
      \<and> wpFetch env url ''/posts?per_page=1'' user pass \<lparr>init_method = None, init_body = None\<rparr>
           = Inr response
      \<and> header response ''X-WP-Total'' = Some ''0''
      \<longrightarrow> getTotalPosts env url user pass = Inr (Num 0))
   \<and> (getTotalPosts env url user pass = Inl e
      \<longrightarrow> url = [] \<or> user = []
          \<or> wpFetch env url ''/posts?per_page=1'' user pass \<lparr>init_method = None, init_body = None\<rparr>
               = Inl e)"
proof -
  have "parseInt ''0'' = Num 0"
    by (simp add: parseInt_def roundToDouble_def isWhitespace_def isDigit_def digitsValue_def Let_def)
  then show ?thesis
    by (auto simp: getTotalPosts_def split: sum.splits option.splits)
qed

theorem getTotalPosts_missing_header_witness:
  "getTotalPosts headerless_site ''https://example.org/'' ''admin'' None = Inr (Num 0)"
proof -
  have "wpFetch headerless_site ''https://example.org/'' ''/posts?per_page=1'' ''admin'' None
          \<lparr>init_method = None, init_body = None\<rparr> = Inr headerless_response"
    by (simp add: wpFetch_def headerless_site_def headerless_response_def)
  moreover have "header headerless_response ''X-WP-Total'' = None"
    by (simp add: headerless_response_def)
  ultimately show ?thesis
    using getTotalPosts_missing_header
      [of "''https://example.org/''" "''admin''" headerless_site None headerless_response]
    by simp
qed

section \<open>Properties of generateText\<close>

text \<open>
  The request a chat-completion call sends: a \<open>max_tokens\<close> of 0 is left out, and the
  timeout defaults to 90 seconds.
\<close>

lemma callOpenAICompatibleAPI_sends:
  "snd (callOpenAICompatibleAPI env apiUrl key modelName prompt maxTokens timeout w) =
     w @ [Sent (ChatCompletion apiUrl key modelName prompt
                  (case maxTokens of None \<Rightarrow> None | Some n \<Rightarrow> if n = 0 then None else Some n)
                  (case timeout of None \<Rightarrow> 90000 | Some t \<Rightarrow> t))]"
  by (simp add: callOpenAICompatibleAPI_def fetchWithTimeout_def Let_def
      split: prod.splits sum.splits chat_body.splits option.splits list.splits
             fetch_outcome.splits)

text \<open>
  C9 (as amended). Of the three OpenAI-compatible providers, Groq and OpenRouter need a
  model name: with a configuration without one (absent or empty), \<open>generateText\<close> fails
  with a validation error and sends no request (the trace is unchanged), the error being
  \<open>... model name is required.\<close> when the configuration has an API key, and
  \<open>... API key is required.\<close> when the key is missing too, the key being checked first.
  OpenAI needs none, and the model of the configuration is not read: without an API key
  the call fails with \<open>OpenAI API key is required.\<close> and sends no request, and with one it
  is the chat-completion call for the fixed model \<open>gpt-4-turbo\<close>, which sends its request.
\<close>

theorem generateText_requires_model:
  "((provider cfg = Groq \<or> provider cfg = OpenRouter) \<and> missing (model cfg)
      \<longrightarrow> generateText env cfg prompt maxTokens timeout w =
           (Inl (JsError PlainError
                  (providerName (provider cfg) @
                   (if missing (apiKey cfg) then '' API key is required.''
                    else '' model name is required.''))), w))
   \<and> (provider cfg = OpenAI \<and> missing (apiKey cfg)
      \<longrightarrow> generateText env cfg prompt maxTokens timeout w =
           (Inl (JsError PlainError ''OpenAI API key is required.''), w))
   \<and> (provider cfg = OpenAI \<and> \<not> missing (apiKey cfg)
      \<longrightarrow> generateText env cfg prompt maxTokens timeout w =
           callOpenAICompatibleAPI env ''https://api.openai.com/v1/chat/completions''
             (the (apiKey cfg)) ''gpt-4-turbo'' prompt maxTokens timeout w
        \<and> snd (generateText env cfg prompt maxTokens timeout w) =
           w @ [Sent (ChatCompletion ''https://api.openai.com/v1/chat/completions''
                        (the (apiKey cfg)) ''gpt-4-turbo'' prompt
                        (case maxTokens of
                           None \<Rightarrow> None
                         | Some n \<Rightarrow> if n = 0 then None else Some n)
                        (case timeout of None \<Rightarrow> 90000 | Some t \<Rightarrow> t))])"
proof (intro conjI impI)
  assume "(provider cfg = Groq \<or> provider cfg = OpenRouter) \<and> missing (model cfg)"
  then show "generateText env cfg prompt maxTokens timeout w =
           (Inl (JsError PlainError
                  (providerName (provider cfg) @
                   (if missing (apiKey cfg) then '' API key is required.''
                    else '' model name is required.''))), w)"
    by (auto simp: generateText_def)
next
  assume "provider cfg = OpenAI \<and> missing (apiKey cfg)"
  then show "generateText env cfg prompt maxTokens timeout w =
           (Inl (JsError PlainError ''OpenAI API key is required.''), w)"
    by (simp add: generateText_def)
next
  assume h: "provider cfg = OpenAI \<and> \<not> missing (apiKey cfg)"
  then show run: "generateText env cfg prompt maxTokens timeout w =
           callOpenAICompatibleAPI env ''https://api.openai.com/v1/chat/completions''
             (the (apiKey cfg)) ''gpt-4-turbo'' prompt maxTokens timeout w"
    by (simp add: generateText_def)
  show "snd (generateText env cfg prompt maxTokens timeout w) =
           w @ [Sent (ChatCompletion ''https://api.openai.com/v1/chat/completions''
                        (the (apiKey cfg)) ''gpt-4-turbo'' prompt
                        (case maxTokens of
                           None \<Rightarrow> None
                         | Some n \<Rightarrow> if n = 0 then None else Some n)
                        (case timeout of None \<Rightarrow> 90000 | Some t \<Rightarrow> t))]"
    unfolding run by (rule callOpenAICompatibleAPI_sends)
qed

theorem generateText_requires_model_witness:
  "generateText answering_two groq_without_model ''Which paragraph?'' (Some 10) (Some 20000) []
     = (Inl (JsError PlainError ''Groq model name is required.''), [])
   \<and> snd (generateText answering_two openai_without_model ''Which paragraph?'' (Some 10)
            (Some 20000) [])
     = [Sent (ChatCompletion ''https://api.openai.com/v1/chat/completions'' ''sk-test''
                ''gpt-4-turbo'' ''Which paragraph?'' (Some 10) 20000)]"
proof -
  have 1: "generateText answering_two groq_without_model ''Which paragraph?'' (Some 10)
             (Some 20000) []
           = (Inl (JsError PlainError ''Groq model name is required.''), [])"
    using generateText_requires_model
      [of groq_without_model answering_two "''Which paragraph?''" "Some 10" "Some 20000" "[]"]
    by (simp add: groq_without_model_def missing_def)
  have o: "provider openai_without_model = OpenAI \<and> \<not> missing (apiKey openai_without_model)"
    by (simp add: openai_without_model_def missing_def)
  have k: "the (apiKey openai_without_model) = ''sk-test''"
    by (simp add: openai_without_model_def)
  from generateText_requires_model
      [of openai_without_model answering_two "''Which paragraph?''" "Some 10" "Some 20000" "[]"]
    o
  have "snd (generateText answering_two openai_without_model ''Which paragraph?'' (Some 10)
            (Some 20000) [])
     = [] @ [Sent (ChatCompletion ''https://api.openai.com/v1/chat/completions''
                (the (apiKey openai_without_model)) ''gpt-4-turbo'' ''Which paragraph?''
                (case Some 10 of None \<Rightarrow> None | Some n \<Rightarrow> if n = 0 then None else Some n)
                (case Some 20000 of None \<Rightarrow> 90000 | Some t \<Rightarrow> t))]"
    by blast
  then have 2: "snd (generateText answering_two openai_without_model ''Which paragraph?''
                  (Some 10) (Some 20000) [])
     = [Sent (ChatCompletion ''https://api.openai.com/v1/chat/completions'' ''sk-test''
                ''gpt-4-turbo'' ''Which paragraph?'' (Some 10) 20000)]"
    by (simp add: k)
  from 1 2 show ?thesis by simp
qed

text \<open>
  The claim as stated fails, in two ways. For OpenAI, one of the OpenAI-compatible
  providers, a configuration without a model is no error: the request is sent and its
  reply returned. And for Groq without a key and without a model the error is the one
  about the API key, whose message does not mention the model name.
\<close>

theorem generateText_model_not_required:
  "generateText answering_two openai_without_model ''Which paragraph?'' (Some 10)
       (Some 20000) []
     = (Inr ''2'',
        [Sent (ChatCompletion ''https://api.openai.com/v1/chat/completions'' ''sk-test''
                 ''gpt-4-turbo'' ''Which paragraph?'' (Some 10) 20000)])
   \<and> model openai_without_model = None
   \<and> generateText answering_two groq_without_key_and_model ''Which paragraph?'' (Some 10)
       (Some 20000) []
     = (Inl (JsError PlainError ''Groq API key is required.''), [])
   \<and> model groq_without_key_and_model = None
   \<and> \<not> js_includes ''Groq API key is required.'' ''model name is required''"
  by (simp add: generateText_def groq_without_key_and_model_def openai_without_model_def
      missing_def js_includes_def sublist_Cons_right prefix_code callOpenAICompatibleAPI_def
      fetchWithTimeout_def answering_two_def Let_def)

section \<open>Properties of generateImageBriefsAndAltsBatch\<close>

lemma codeBlockMatch_SomeD:
  assumes "codeBlockMatch input = Some c"
  shows "trim c = c"
proof -
  from fenced_cases [of input] show ?thesis
  proof
    assume "noFencedBlock input"
    then have "codeBlockMatch input = None"
      unfolding noFencedBlock_def by (rule codeBlockMatch_None)
    with assms show ?thesis by simp
  next
    assume "\<exists>between. fencedBlock input between"
    then obtain between where "fencedBlock input between" by blast
    then have "codeBlockMatch input = Some (trim between)"
      unfolding fencedBlock_def by (metis codeBlockMatch_fenced)
    with assms have "c = trim between" by simp
    then show ?thesis by (simp add: trim_idem)
  qed
qed

lemma bracketSpan_not_empty: "bracketSpan input \<noteq> Some []"
proof -
  from bracket_cases [of input] show ?thesis
  proof
    assume "unbracketed input"
    then have "bracketSpan input = None"
      unfolding unbracketed_def by (auto simp: bracketSpan_unbracketed)
    then show ?thesis by simp
  next
    assume "\<exists>span. bracketed input span"
    then show ?thesis
      unfolding bracketed_def by (auto simp: bracketSpan_bracketed)
  qed
qed

lemma extractJson_not_empty: "extractJson input \<noteq> Some []"
proof (cases "codeBlockMatch input")
  case None
  then show ?thesis by (simp add: extractJson_def bracketSpan_not_empty)
next
  case (Some c)
  then have "trim c = c" by (rule codeBlockMatch_SomeD)
  with Some show ?thesis
    by (auto simp: extractJson_def bracketSpan_not_empty)
qed

lemma batchState_loop:
  "batchState parser json env cfg posts w0 k = Some (i, allResults, w) \<Longrightarrow>
   generateImageBriefsAndAltsBatch parser json env cfg posts w0 =
     batchLoop parser json env cfg posts i allResults w"
proof (induction k arbitrary: i allResults w)
  case 0
  then show ?case by (simp add: generateImageBriefsAndAltsBatch_def)
next
  case (Suc k)
  from Suc.prems obtain i' acc' w' where
    prev: "batchState parser json env cfg posts w0 k = Some (i', acc', w')"
    by (auto split: option.splits)
  with Suc.prems have lt: "i' < length posts"
    by (auto split: if_splits)
  from Suc.prems prev lt obtain rs w2 where
    run: "runBatch parser json env cfg posts i' w' = (Inr rs, w2)"
    and st: "i = i' + BATCH_SIZE" "allResults = acc' @ rs"
      "w = (if i' + BATCH_SIZE < length posts then delay DELAY_BETWEEN_BATCHES w2 else w2)"
    by (auto split: prod.splits sum.splits)
  have "generateImageBriefsAndAltsBatch parser json env cfg posts w0 =
          batchLoop parser json env cfg posts i' acc' w'"
    using prev by (rule Suc.IH)
  also have "\<dots> = batchLoop parser json env cfg posts i allResults w"
    using lt run st by (subst batchLoop.simps) simp
  finally show ?case .
qed

lemma batchState_index:
  "batchState parser json env cfg posts w0 k = Some (i, allResults, w) \<Longrightarrow> i = k * BATCH_SIZE"
  by (induction k arbitrary: i allResults w)
     (auto split: option.splits if_splits prod.splits sum.splits)

text \<open>
  C8. Whenever the loop starts a batch (its \<open>k\<close>-th, at index \<open>i = 20 k\<close>) and that
  batch's AI request fails in the end (also with the error of exhausted retries), or
  its reply holds no JSON, or \<open>JSON.parse\<close> rejects what was extracted,
  \<open>generateImageBriefsAndAltsBatch\<close> as a whole ends with an error: the caller gets the
  error and no results, neither for the posts of that batch nor those collected from
  earlier batches.
\<close>

theorem batch_failure_is_fatal:
  assumes "batchState parser json env cfg posts w0 k = Some (i, allResults, w)"
    and "i < length posts"
  shows "i = k * BATCH_SIZE
       \<and> (batchRequest parser json env cfg posts i w = (Inl error, w1)
            \<longrightarrow> generateImageBriefsAndAltsBatch parser json env cfg posts w0
                  = (Inl (rethrown cfg error), w1))
       \<and> (batchRequest parser json env cfg posts i w = (Inr responseText, w1)
            \<and> extractJson responseText = None
            \<longrightarrow> generateImageBriefsAndAltsBatch parser json env cfg posts w0
                  = (Inl (noJsonError cfg), w1))
       \<and> (batchRequest parser json env cfg posts i w = (Inr responseText, w1)
            \<and> extractJson responseText = Some jsonString
            \<and> json_parse json jsonString = ParseSyntaxError message
            \<longrightarrow> generateImageBriefsAndAltsBatch parser json env cfg posts w0
                  = (Inl (malformedError cfg), w1))
       \<and> (batchRequest parser json env cfg posts i w = (Inr responseText, w1)
            \<and> extractJson responseText = Some jsonString
            \<and> json_parse json jsonString = ParsedOther message
            \<longrightarrow> generateImageBriefsAndAltsBatch parser json env cfg posts w0
                  = (Inl (JsError TypeError message), w1))"
proof -
  have loop: "generateImageBriefsAndAltsBatch parser json env cfg posts w0 =
          batchLoop parser json env cfg posts i allResults w"
    using assms(1) by (rule batchState_loop)
  have fatal: "\<And>e w'. runBatch parser json env cfg posts i w = (Inl e, w') \<Longrightarrow>
      generateImageBriefsAndAltsBatch parser json env cfg posts w0 = (Inl e, w')"
    unfolding loop using assms(2) by (subst batchLoop.simps) simp
  show ?thesis
  proof (intro conjI impI)
    show "i = k * BATCH_SIZE"
      using assms(1) by (rule batchState_index)
  next
    assume "batchRequest parser json env cfg posts i w = (Inl error, w1)"
    then show "generateImageBriefsAndAltsBatch parser json env cfg posts w0
                  = (Inl (rethrown cfg error), w1)"
      by (intro fatal) (simp add: runBatch_def)
  next
    assume "batchRequest parser json env cfg posts i w = (Inr responseText, w1)
            \<and> extractJson responseText = None"
    then show "generateImageBriefsAndAltsBatch parser json env cfg posts w0
                  = (Inl (noJsonError cfg), w1)"
      by (intro fatal) (simp add: runBatch_def)
  next
    assume h: "batchRequest parser json env cfg posts i w = (Inr responseText, w1)
            \<and> extractJson responseText = Some jsonString
            \<and> json_parse json jsonString = ParseSyntaxError message"
    then have "jsonString \<noteq> []"
      using extractJson_not_empty [of responseText] by auto
    with h show "generateImageBriefsAndAltsBatch parser json env cfg posts w0
                  = (Inl (malformedError cfg), w1)"
      by (intro fatal) (simp add: runBatch_def)
  next
    assume h: "batchRequest parser json env cfg posts i w = (Inr responseText, w1)
            \<and> extractJson responseText = Some jsonString
            \<and> json_parse json jsonString = ParsedOther message"
    then have "jsonString \<noteq> []"
      using extractJson_not_empty [of responseText] by auto
    with h show "generateImageBriefsAndAltsBatch parser json env cfg posts w0
                  = (Inl (JsError TypeError message), w1)"
      by (intro fatal) (simp add: runBatch_def)
  qed
qed

theorem batch_failure_is_fatal_witness:
  "fst (generateImageBriefsAndAltsBatch text_only_parser rejecting_json always_limited
          openai_config [bare_post 1 0 0] [])
     = Inl (JsError PlainError
         ''AI request failed after 3 attempts. Last error: API request failed with status 429'')"
proof -
  have st: "batchState text_only_parser rejecting_json always_limited openai_config
              [bare_post 1 0 0] [] 0 = Some (0, [], [Progress 0 1])"
    by simp
  have req: "fst (batchRequest text_only_parser rejecting_json always_limited openai_config
                [bare_post 1 0 0] 0 [Progress 0 1])
          = Inl (JsError PlainError
         ''AI request failed after 3 attempts. Last error: API request failed with status 429'')"
    by (simp add: batchRequest_def retryableAIOperation_def retryLoop.simps generateJsonText_def
        generateText_def openai_config_def missing_def callOpenAICompatibleAPI_def
        fetchWithTimeout_def always_limited_def decimal.simps digit_char_def
        isRateLimitError_def exhaustedError_def delay_def)
  have nr: "rethrown openai_config (JsError PlainError
         ''AI request failed after 3 attempts. Last error: API request failed with status 429'')
       = JsError PlainError
         ''AI request failed after 3 attempts. Last error: API request failed with status 429''"
    by (simp add: rethrown_def)
  obtain r w1 where rw: "batchRequest text_only_parser rejecting_json always_limited openai_config
                [bare_post 1 0 0] 0 [Progress 0 1] = (r, w1)"
    by (cases "batchRequest text_only_parser rejecting_json always_limited openai_config
                [bare_post 1 0 0] 0 [Progress 0 1]") auto
  with req have "batchRequest text_only_parser rejecting_json always_limited openai_config
                [bare_post 1 0 0] 0 [Progress 0 1] = (Inl (JsError PlainError
         ''AI request failed after 3 attempts. Last error: API request failed with status 429''), w1)"
    by simp
  with batch_failure_is_fatal [OF st, of _ w1] nr show ?thesis
    by simp
qed

section \<open>Properties of the image placement\<close>

lemma serializeNode_paragraph_raw:
  "isParagraph n \<Longrightarrow> serializeNode raw n = serializeNode False n"
  by (cases n) auto

lemma paragraphsOf_childNodes:
  "paragraphsOf n = (if isParagraph n then [n] else []) @ concat (map paragraphsOf (childNodes n))"
  by (cases n) auto

lemma inner_index:
  assumes "k < length (paragraphsOf n)" and "\<not> (isParagraph n \<and> k = 0)"
  shows "(if isParagraph n then k - 1 else k) < length (concat (map paragraphsOf (childNodes n)))"
    and "paragraphsOf n ! k =
           concat (map paragraphsOf (childNodes n)) ! (if isParagraph n then k - 1 else k)"
proof -
  let ?inner = "concat (map paragraphsOf (childNodes n))"
  show "(if isParagraph n then k - 1 else k) < length ?inner"
  proof (cases "isParagraph n")
    case True
    then have "length (paragraphsOf n) = Suc (length ?inner)"
      by (subst paragraphsOf_childNodes) simp
    moreover from True assms(2) have "0 < k" by simp
    ultimately show ?thesis using assms(1) True by simp
  next
    case False
    then have "length (paragraphsOf n) = length ?inner"
      by (subst paragraphsOf_childNodes) simp
    then show ?thesis using assms(1) False by simp
  qed
  show "paragraphsOf n ! k = ?inner ! (if isParagraph n then k - 1 else k)"
  proof (cases "isParagraph n")
    case True
    then have "paragraphsOf n = n # ?inner"
      by (subst paragraphsOf_childNodes) simp
    moreover from True assms(2) have "0 < k" by simp
    ultimately show ?thesis using True by (simp add: nth_Cons')
  next
    case False
    then have "paragraphsOf n = ?inner"
      by (subst paragraphsOf_childNodes) simp
    then show ?thesis using False by simp
  qed
qed

lemma paragraph_first: "isParagraph n \<Longrightarrow> paragraphsOf n ! 0 = n"
  by (subst paragraphsOf_childNodes) simp

lemma insert_splice:
  fixes fragment :: "node list" and fs :: string
  shows "(\<And>raw. concat (map (serializeNode raw) fragment) = fs) \<Longrightarrow>
         k < length (concat (map paragraphsOf ns)) \<Longrightarrow>
         \<exists>pre post. concat (map (serializeNode raw) ns) = pre @ post
           \<and> concat (map (serializeNode raw) (insertAfter k fragment ns)) = pre @ fs @ post
           \<and> suffix (serializeNode False (concat (map paragraphsOf ns) ! k)) pre"
    and "(\<And>raw. concat (map (serializeNode raw) fragment) = fs) \<Longrightarrow>
         k < length (concat (map paragraphsOf (childNodes n))) \<Longrightarrow>
         \<exists>pre post. serializeNode raw n = pre @ post
           \<and> serializeNode raw (insertInto k fragment n) = pre @ fs @ post
           \<and> suffix (serializeNode False (concat (map paragraphsOf (childNodes n)) ! k)) pre"
proof (induction k fragment ns and k fragment n arbitrary: raw and raw
       rule: insertAfter_insertInto.induct)
  case (1 k fragment)
  then show ?case by simp
next
  case (2 k fragment n ns)
  note frag = "2.prems"(1)
  let ?rest = "concat (map (serializeNode raw) ns)"
  have all: "concat (map paragraphsOf (n # ns)) = paragraphsOf n @ concat (map paragraphsOf ns)"
    by simp
  have ser: "concat (map (serializeNode raw) (n # ns)) = serializeNode raw n @ ?rest"
    by simp
  show ?case
  proof (cases "k < length (paragraphsOf n)")
    case inside: True
    then have nth: "concat (map paragraphsOf (n # ns)) ! k = paragraphsOf n ! k"
      unfolding all by (simp add: nth_append)
    show ?thesis
    proof (cases "isParagraph n \<and> k = 0")
      case True
      have ins: "insertAfter k fragment (n # ns) = n # fragment @ ns"
        using True inside by simp
      have 2: "concat (map (serializeNode raw) (insertAfter k fragment (n # ns)))
              = serializeNode raw n @ fs @ ?rest"
        unfolding ins using frag [of raw] by simp
      have "concat (map paragraphsOf (n # ns)) ! k = n"
        unfolding nth using True by (simp add: paragraph_first)
      then have 3: "suffix (serializeNode False (concat (map paragraphsOf (n # ns)) ! k))
                   (serializeNode raw n)"
        using True serializeNode_paragraph_raw [of n raw] by simp
      show ?thesis by (intro exI conjI) (rule ser, rule 2, rule 3)
    next
      case False
      let ?k' = "if isParagraph n then k - 1 else k"
      let ?inner = "concat (map paragraphsOf (childNodes n))"
      have k': "?k' < length ?inner" and nth': "paragraphsOf n ! k = ?inner ! ?k'"
        using inner_index [OF inside False] by blast+
      from "2.IH"(1) [OF inside False frag k', of raw]
      obtain pre post where pp: "serializeNode raw n = pre @ post"
        "serializeNode raw (insertInto ?k' fragment n) = pre @ fs @ post"
        "suffix (serializeNode False (?inner ! ?k')) pre"
        by blast
      have ins: "insertAfter k fragment (n # ns) = insertInto ?k' fragment n # ns"
        by (simp only: insertAfter.simps inside False if_True if_False)
      have 1: "concat (map (serializeNode raw) (n # ns)) = pre @ (post @ ?rest)"
        unfolding ser pp(1) by simp
      have 2: "concat (map (serializeNode raw) (insertAfter k fragment (n # ns)))
              = pre @ fs @ (post @ ?rest)"
        unfolding ins using pp(2) by simp
      have 3: "suffix (serializeNode False (concat (map paragraphsOf (n # ns)) ! k)) pre"
        unfolding nth nth' by (rule pp(3))
      show ?thesis by (intro exI conjI) (rule 1, rule 2, rule 3)
    qed
  next
    case outside: False
    let ?k' = "k - length (paragraphsOf n)"
    have k': "?k' < length (concat (map paragraphsOf ns))"
      using "2.prems"(2) outside unfolding all by simp
    from "2.IH"(2) [OF outside frag k', of raw]
    obtain pre post where pp: "concat (map (serializeNode raw) ns) = pre @ post"
      "concat (map (serializeNode raw) (insertAfter ?k' fragment ns)) = pre @ fs @ post"
      "suffix (serializeNode False (concat (map paragraphsOf ns) ! ?k')) pre"
      by blast
    have nth: "concat (map paragraphsOf (n # ns)) ! k = concat (map paragraphsOf ns) ! ?k'"
      unfolding all using outside by (simp add: nth_append)
    have ins: "insertAfter k fragment (n # ns) = n # insertAfter ?k' fragment ns"
      using outside by simp
    have 1: "concat (map (serializeNode raw) (n # ns)) = (serializeNode raw n @ pre) @ post"
      unfolding ser pp(1) by simp
    have 2: "concat (map (serializeNode raw) (insertAfter k fragment (n # ns)))
              = (serializeNode raw n @ pre) @ fs @ post"
      unfolding ins using pp(2) by simp
    have 3: "suffix (serializeNode False (concat (map paragraphsOf (n # ns)) ! k))
              (serializeNode raw n @ pre)"
      unfolding nth using pp(3) by (rule suffix_appendI)
    show ?thesis by (intro exI conjI) (rule 1, rule 2, rule 3)
  qed
next
  case (3 k fragment tag attrs children)
  note frag = "3.prems"(1)
  from "3.prems"(2) have "k < length (concat (map paragraphsOf children))" by simp
  from "3.IH" [OF frag this, of "rawTextElement tag"]
  obtain pre post where pp:
    "concat (map (serializeNode (rawTextElement tag)) children) = pre @ post"
    "concat (map (serializeNode (rawTextElement tag)) (insertAfter k fragment children))
       = pre @ fs @ post"
    "suffix (serializeNode False (concat (map paragraphsOf children) ! k)) pre"
    by blast
  define open_tag where "open_tag = ''<'' @ tag @ serializeAttributes attrs @ ''>''"
  define close_tag where "close_tag = ''</'' @ tag @ ''>''"
  have 1: "serializeNode raw (Element tag attrs children) = (open_tag @ pre) @ (post @ close_tag)"
    using pp(1) by (simp add: open_tag_def close_tag_def)
  have 2: "serializeNode raw (insertInto k fragment (Element tag attrs children))
      = (open_tag @ pre) @ fs @ (post @ close_tag)"
    using pp(2) by (simp add: open_tag_def close_tag_def)
  have 3: "suffix (serializeNode False
             (concat (map paragraphsOf (childNodes (Element tag attrs children))) ! k))
             (open_tag @ pre)"
    using pp(3) by (simp add: suffix_appendI)
  show ?case by (intro exI conjI) (rule 1, rule 2, rule 3)
qed simp_all

lemma filter_upt_single:
  assumes "i < N" and "P i" and "\<And>j. j < N \<Longrightarrow> j \<noteq> i \<Longrightarrow> \<not> P j"
  shows "filter P [0 ..< N] = [i]"
proof -
  have split: "[0 ..< N] = [0 ..< i] @ i # [Suc i ..< N]"
  proof -
    have "[0 ..< i + (N - i)] = [0 ..< i] @ [i ..< i + (N - i)]"
      by (rule upt_add_eq_append) simp
    then show ?thesis
      using assms(1) by (simp add: upt_conv_Cons)
  qed
  have "filter P [0 ..< i] = []" "filter P [Suc i ..< N] = []"
    using assms(1,3) by (auto simp: filter_empty_conv)
  then show ?thesis
    unfolding split using assms(2) by simp
qed

lemma prefix_drop_nth:
  assumes "prefix m (drop j s)" and "i < length m"
  shows "s ! (j + i) = m ! i"
proof -
  from assms(1) obtain r where r: "drop j s = m @ r" by (auto simp: prefix_def)
  then have "length m \<le> length (drop j s)" by simp
  then have "j + i < length s" using assms(2) by simp
  then have "s ! (j + i) = drop j s ! i" by simp
  also have "\<dots> = m ! i" unfolding r using assms(2) by (simp add: nth_append)
  finally show ?thesis .
qed

lemma prefix_drop_sublist: "prefix m (drop j s) \<Longrightarrow> sublist m s"
proof -
  assume "prefix m (drop j s)"
  then obtain r where "drop j s = m @ r" by (auto simp: prefix_def)
  then have "s = take j s @ m @ r" by (metis append_take_drop_id)
  then show ?thesis unfolding sublist_def by blast
qed

lemma drop_past: "length xs \<le> j \<Longrightarrow> drop j (xs @ ys) = drop (j - length xs) ys"
  by simp

lemma occurrences_single:
  assumes "i \<le> length s" and "prefix m (drop i s)"
    and "\<And>j. j \<noteq> i \<Longrightarrow> \<not> prefix m (drop j s)"
  shows "occurrences m s = [i]"
  unfolding occurrences_def using assms by (intro filter_upt_single) auto

lemma occurrences_spliced:
  assumes clean: "\<not> sublist m (pre @ post)" and nl: "CHR 0x0A \<notin> set m" and ne: "m \<noteq> []"
  shows "occurrences m (pre @ [CHR 0x0A] @ m @ [CHR 0x0A] @ post) = [Suc (length pre)]"
proof (rule occurrences_single)
  let ?s = "pre @ [CHR 0x0A] @ m @ [CHR 0x0A] @ post"
  let ?L = "length pre" and ?n = "length m"
  show "Suc ?L \<le> length ?s" by simp
  show "prefix m (drop (Suc ?L) ?s)" by simp
  fix j assume j: "j \<noteq> Suc ?L"
  show "\<not> prefix m (drop j ?s)"
  proof
    assume p: "prefix m (drop j ?s)"
    have avoid: "\<And>q. j \<le> q \<Longrightarrow> q < j + ?n \<Longrightarrow> ?s ! q \<noteq> CHR 0x0A"
    proof -
      fix q assume "j \<le> q" "q < j + ?n"
      then have "q - j < ?n" "q = j + (q - j)" by simp_all
      with prefix_drop_nth [OF p, of "q - j"] have "?s ! q = m ! (q - j)" by simp
      moreover have "m ! (q - j) \<in> set m" using \<open>q - j < ?n\<close> by simp
      ultimately show "?s ! q \<noteq> CHR 0x0A" using nl by metis
    qed
    have at1: "?s ! ?L = CHR 0x0A" by (simp add: nth_append)
    have at2: "?s ! (?L + ?n + 1) = CHR 0x0A"
    proof -
      have "?s = (pre @ [CHR 0x0A] @ m) @ CHR 0x0A # post" by simp
      moreover have "length (pre @ [CHR 0x0A] @ m) = ?L + ?n + 1" by simp
      ultimately show ?thesis by (metis nth_append_length)
    qed
    have npos: "0 < ?n" using ne by simp
    consider (before) "j + ?n \<le> ?L" | (first) "j \<le> ?L" "?L < j + ?n"
      | (second) "Suc ?L < j" "j \<le> ?L + ?n + 1" | (after) "?L + ?n + 1 < j"
      using j by linarith
    then show False
    proof cases
      case before
      then have "drop j ?s = drop j pre @ [CHR 0x0A] @ m @ [CHR 0x0A] @ post" by simp
      moreover have "?n \<le> length (drop j pre)" using before by simp
      ultimately have "prefix m (drop j pre)"
        using p by (metis prefix_length_prefix append_prefixD prefix_order.order_refl prefixI)
      then have "sublist m pre" by (rule prefix_drop_sublist)
      then have "sublist m (pre @ post)"
        unfolding sublist_def by (metis append_assoc)
      with clean show False by simp
    next
      case first
      with avoid [of ?L] at1 show False by simp
    next
      case second
      then have "j \<le> ?L + ?n + 1" "?L + ?n + 1 < j + ?n" using npos by simp_all
      with avoid [of "?L + ?n + 1"] at2 show False by simp
    next
      case after
      then have "drop j ?s = drop (j - (?L + ?n + 2)) post"
        using drop_past [of "pre @ [CHR 0x0A] @ m @ [CHR 0x0A]" j post] by simp
      with p have "sublist m post" by (metis prefix_drop_sublist)
      then have "sublist m (pre @ post)"
        unfolding sublist_def by (metis append_assoc)
      with clean show False by simp
    qed
  qed
qed

lemma occurrences_prepended:
  assumes clean: "\<not> sublist m post" and nl: "CHR 0x0A \<notin> set m" and ne: "m \<noteq> []"
  shows "occurrences m (m @ [CHR 0x0A] @ post) = [0]"
proof (rule occurrences_single)
  let ?s = "m @ [CHR 0x0A] @ post"
  let ?n = "length m"
  show "0 \<le> length ?s" by simp
  show "prefix m (drop 0 ?s)" by simp
  fix j :: nat assume j: "j \<noteq> 0"
  show "\<not> prefix m (drop j ?s)"
  proof
    assume p: "prefix m (drop j ?s)"
    have npos: "0 < ?n" using ne by simp
    show False
    proof (cases "j \<le> ?n")
      case True
      then have "?n - j < ?n" using j npos by simp
      with prefix_drop_nth [OF p, of "?n - j"] True have "?s ! ?n = m ! (?n - j)" by simp
      moreover have "?s ! ?n = CHR 0x0A" by (simp add: nth_append)
      moreover have "m ! (?n - j) \<in> set m" using \<open>?n - j < ?n\<close> by simp
      ultimately show False using nl by metis
    next
      case False
      then have "drop j ?s = drop (j - (?n + 1)) post"
        using drop_past [of "m @ [CHR 0x0A]" j post] by simp
      with p have "sublist m post" by (metis prefix_drop_sublist)
      with clean show False by simp
    qed
  qed
qed

lemma innerHTML_insertAfter:
  assumes "\<And>raw. concat (map (serializeNode raw) fragment) = fs"
    and "k < length (querySelectorAll_p body)"
  shows "\<exists>pre post. innerHTML body = pre @ post
           \<and> innerHTML (insertAfter k fragment body) = pre @ fs @ post
           \<and> suffix (serializeNode False (querySelectorAll_p body ! k)) pre"
  using insert_splice(1) [of fragment fs k body False] assms
  unfolding innerHTML_def querySelectorAll_p_def by blast

lemma markerNodes_html: "concat (map (serializeNode raw) markerNodes) = adjacentHtml placeholder"
  by (simp add: markerNodes_def adjacentHtml_def placeholder_def escapeText_def)

lemma placeholder_facts: "CHR 0x0A \<notin> set placeholder" "placeholder \<noteq> []"
  by (simp_all add: placeholder_def)

lemma one_marker_after_paragraph:
  assumes "\<not> sublist placeholder (innerHTML body)" and "k < length (querySelectorAll_p body)"
  shows "length (occurrences placeholder (innerHTML (insertAfter k markerNodes body))) = 1"
proof -
  from innerHTML_insertAfter [OF markerNodes_html assms(2)]
  obtain pre post where pp: "innerHTML body = pre @ post"
    "innerHTML (insertAfter k markerNodes body) = pre @ adjacentHtml placeholder @ post"
    by blast
  have "\<not> sublist placeholder (pre @ post)"
    using assms(1) pp(1) by simp
  then have "occurrences placeholder (pre @ [CHR 0x0A] @ placeholder @ [CHR 0x0A] @ post)
               = [Suc (length pre)]"
    using placeholder_facts by (rule occurrences_spliced)
  then show ?thesis
    unfolding pp(2) adjacentHtml_def by simp
qed

text \<open>
  Where the heuristic puts the marker: after the second paragraph of more than two,
  after the first of two, after the only one, and in front of a content without
  paragraphs.
\<close>

lemma heuristic_positions:
  "insertPlaceholderHeuristically parser postContent marker =
     (let doc = parseFromString parser postContent;
          n = length (querySelectorAll_p doc);
          fragment = parseAdjacent parser (adjacentHtml marker)
      in if 2 < n then innerHTML (insertAfter 1 fragment doc)
         else if n = 2 then innerHTML (insertAfter 0 fragment doc)
         else if n = 1 then innerHTML (insertAfter 0 fragment doc)
         else innerHTML (parseInner parser (marker @ [CHR 0x0A] @ innerHTML doc)))"
proof -
  let ?n = "length (querySelectorAll_p (parseFromString parser postContent))"
  consider "2 < ?n" | "?n = 2" | "?n = 1" | "?n = 0" by linarith
  then show ?thesis
    by cases (simp_all add: insertPlaceholderHeuristically_def Let_def)
qed

lemma one_marker_heuristic:
  assumes "parseAdjacent parser (adjacentHtml placeholder) = markerNodes"
    and "\<not> sublist placeholder (innerHTML (parseFromString parser postContent))"
    and "querySelectorAll_p (parseFromString parser postContent) = [] \<longrightarrow>
         innerHTML (parseInner parser
            (placeholder @ [CHR 0x0A] @ innerHTML (parseFromString parser postContent)))
         = placeholder @ [CHR 0x0A] @ innerHTML (parseFromString parser postContent)"
  shows "length (occurrences placeholder
           (insertPlaceholderHeuristically parser postContent placeholder)) = 1"
proof -
  let ?doc = "parseFromString parser postContent"
  let ?n = "length (querySelectorAll_p ?doc)"
  have after: "\<And>k. k < ?n \<Longrightarrow>
      length (occurrences placeholder (innerHTML (insertAfter k markerNodes ?doc))) = 1"
    using assms(2) by (rule one_marker_after_paragraph)
  consider "2 < ?n" | "?n = 2" | "?n = 1" | "?n = 0" by linarith
  then show ?thesis
  proof cases
    case 1
    then show ?thesis
      using after [of 1] by (simp add: heuristic_positions assms(1))
  next
    case 2
    then show ?thesis
      using after [of 0] by (simp add: heuristic_positions assms(1))
  next
    case 3
    then show ?thesis
      using after [of 0] by (simp add: heuristic_positions assms(1))
  next
    case 4
    then have "insertPlaceholderHeuristically parser postContent placeholder
                 = placeholder @ [CHR 0x0A] @ innerHTML ?doc"
      using assms(3) by (simp add: heuristic_positions)
    moreover have "occurrences placeholder (placeholder @ [CHR 0x0A] @ innerHTML ?doc) = [0]"
      using assms(2) placeholder_facts by (rule occurrences_prepended)
    ultimately show ?thesis by simp
  qed
qed

text \<open>
  C6 (as amended). When the browser reads the marker's HTML as a line break, the comment
  and a line break, and the post content as the browser reads it and writes it back
  (\<open>innerHTML\<close> of the parsed content) does not contain the marker, and (for a content
  without paragraphs) the parser gives back the prepended HTML unchanged, then the
  content returned by \<open>getContentWithImagePlaceholder\<close> on any of its paths, and the
  content returned by \<open>insertPlaceholderHeuristically\<close>, contains the marker exactly once.
\<close>

theorem one_marker_per_post:
  assumes "parseAdjacent parser (adjacentHtml placeholder) = markerNodes"
    and "\<not> sublist placeholder (innerHTML (parseFromString parser postContent))"
    and "querySelectorAll_p (parseFromString parser postContent) = [] \<longrightarrow>
         innerHTML (parseInner parser
            (placeholder @ [CHR 0x0A] @ innerHTML (parseFromString parser postContent)))
         = placeholder @ [CHR 0x0A] @ innerHTML (parseFromString parser postContent)"
  shows "length (occurrences placeholder
           (fst (getContentWithImagePlaceholder parser env cfg postContent postTitle w))) = 1
       \<and> length (occurrences placeholder
           (insertPlaceholderHeuristically parser postContent placeholder)) = 1"
proof -
  let ?doc = "parseFromString parser postContent"
  have h: "length (occurrences placeholder
           (insertPlaceholderHeuristically parser postContent placeholder)) = 1"
    using assms by (rule one_marker_heuristic)
  have after: "\<And>k. k < length (querySelectorAll_p ?doc) \<Longrightarrow>
      length (occurrences placeholder (innerHTML (insertAfter k markerNodes ?doc))) = 1"
    using assms(2) by (rule one_marker_after_paragraph)
  have "length (occurrences placeholder
           (fst (getContentWithImagePlaceholder parser env cfg postContent postTitle w))) = 1"
    unfolding getContentWithImagePlaceholder_def Let_def
    using h after by (auto simp: assms(1) split: prod.splits sum.splits)
  with h show ?thesis by simp
qed

lemma length_filter_snd_enumerate:
  "length (filter (\<lambda>(i, p). Q p) (enumerate n xs)) = length (filter Q xs)"
  by (induction xs arbitrary: n) auto

lemma length_filter_map_pair:
  "length (filter (\<lambda>(num, t). R t) (map (\<lambda>(index, p). (g index, h p)) ys))
     = length (filter (\<lambda>(i, p). R (h p)) ys)"
  by (induction ys) auto

lemma length_paragraphsToAnalyze:
  "length (paragraphsToAnalyze ps)
     = length (filter (\<lambda>p. 80 < length (trim (textContent p))) (take 5 ps))"
  unfolding paragraphsToAnalyze_def
  by (simp only: length_filter_map_pair length_filter_snd_enumerate)

lemma length_filter_weaker:
  "(\<And>x. P x \<Longrightarrow> Q x) \<Longrightarrow> length (filter P xs) \<le> length (filter Q xs)"
  by (induction xs) auto

lemma paragraphsToAnalyze_entries:
  assumes "entry \<in> set (paragraphsToAnalyze ps)"
  shows "1 \<le> fst entry \<and> fst entry \<le> 5 \<and> fst entry \<le> length ps
       \<and> snd entry = trim (textContent (ps ! (fst entry - 1)))
       \<and> 80 < length (snd entry)"
proof -
  from assms obtain i p where ip: "(i, p) \<in> set (enumerate 0 (take 5 ps))"
    "entry = (i + 1, trim (textContent p))" "80 < length (snd entry)"
    by (auto simp: paragraphsToAnalyze_def)
  from ip(1) have "i < length (take 5 ps)" "take 5 ps ! i = p"
    by (auto simp: in_set_enumerate_eq)
  then have "i < 5" "i < length ps" "ps ! i = p"
    by auto
  with ip(2,3) show ?thesis by simp
qed

text \<open>
  C5. With fewer than 3 paragraphs the function returns the heuristic's result and
  leaves the trace as it was (no request, no wait). With 3 or more it looks at the
  first 5 paragraphs only: every entry it would send is one of them, numbered from 1,
  with its trimmed text, and none has fewer than 80 characters (the code keeps those
  with more than 80); and when fewer than 2 of the first 5 paragraphs have 80 characters
  or more, it again returns the heuristic's result with the trace as it was.
\<close>

theorem placement_skips_ai:
  "(length (querySelectorAll_p (parseFromString parser postContent)) < 3
      \<longrightarrow> getContentWithImagePlaceholder parser env cfg postContent postTitle w
            = (insertPlaceholderHeuristically parser postContent placeholder, w))
   \<and> (length (filter (\<lambda>p. 80 \<le> length (trim (textContent p)))
                (take 5 (querySelectorAll_p (parseFromString parser postContent)))) < 2
      \<longrightarrow> getContentWithImagePlaceholder parser env cfg postContent postTitle w
            = (insertPlaceholderHeuristically parser postContent placeholder, w))
   \<and> (\<forall>entry \<in> set (paragraphsToAnalyze (querySelectorAll_p (parseFromString parser postContent))).
         1 \<le> fst entry \<and> fst entry \<le> 5
         \<and> fst entry \<le> length (querySelectorAll_p (parseFromString parser postContent))
         \<and> snd entry = trim (textContent
               (querySelectorAll_p (parseFromString parser postContent) ! (fst entry - 1)))
         \<and> 80 \<le> length (snd entry) \<and> 80 < length (snd entry))"
proof (intro conjI impI ballI)
  let ?ps = "querySelectorAll_p (parseFromString parser postContent)"
  {
    assume "length ?ps < 3"
    then show "getContentWithImagePlaceholder parser env cfg postContent postTitle w
            = (insertPlaceholderHeuristically parser postContent placeholder, w)"
      by (simp add: getContentWithImagePlaceholder_def Let_def)
  }
  {
    assume few: "length (filter (\<lambda>p. 80 \<le> length (trim (textContent p))) (take 5 ?ps)) < 2"
    have "length (paragraphsToAnalyze ?ps)
            \<le> length (filter (\<lambda>p. 80 \<le> length (trim (textContent p))) (take 5 ?ps))"
      unfolding length_paragraphsToAnalyze by (rule length_filter_weaker) simp
    with few have "length (paragraphsToAnalyze ?ps) < 2" by simp
    then show "getContentWithImagePlaceholder parser env cfg postContent postTitle w
            = (insertPlaceholderHeuristically parser postContent placeholder, w)"
      by (simp add: getContentWithImagePlaceholder_def Let_def)
  }
  fix entry assume e: "entry \<in> set (paragraphsToAnalyze ?ps)"
  show "1 \<le> fst entry" "fst entry \<le> 5" "fst entry \<le> length ?ps"
    "snd entry = trim (textContent (?ps ! (fst entry - 1)))"
    "80 \<le> length (snd entry)" "80 < length (snd entry)"
    using paragraphsToAnalyze_entries [OF e] by auto
qed

lemma short_post_html: "innerHTML short_post = ''<p>One.</p><p>Two.</p><p>Three.</p>''"
  by (simp add: innerHTML_def short_post_def serializeAttributes_def escapeText_def
      rawTextElement_def)

lemma replicate_81: "replicate 81 c = c # replicate 80 c"
proof -
  have "(81::nat) = Suc 80" by simp
  then show ?thesis by (simp only: replicate_Suc)
qed

lemma long_paragraph_html:
  "serializeNode raw (long_paragraph c) =
     ''<p>'' @ escapeText (replicate 81 c) @ ''</p>''"
  by (simp add: long_paragraph_def serializeAttributes_def rawTextElement_def)

lemma escapeText_plain:
  "c \<noteq> CHR ''&'' \<Longrightarrow> c \<noteq> CHR 0xA0 \<Longrightarrow> c \<noteq> CHR ''<'' \<Longrightarrow> c \<noteq> CHR ''>'' \<Longrightarrow>
     escapeText (replicate n c) = replicate n c"
  by (induction n) (simp_all add: escapeText_def)

lemma long_post_html:
  "innerHTML long_post =
     ''<p>'' @ replicate 81 CHR ''a'' @ ''</p>'' @ ''<p>'' @ replicate 81 CHR ''b'' @ ''</p>''
     @ ''<p>'' @ replicate 81 CHR ''c'' @ ''</p>''"
  by (simp add: innerHTML_def long_post_def long_paragraph_html escapeText_plain)

lemma long_post_html_head: "innerHTML long_post = ''<p>a'' @ drop 4 (innerHTML long_post)"
  unfolding long_post_html by (simp add: replicate_81)

lemma long_short_differ: "innerHTML short_post \<noteq> innerHTML long_post"
  by (subst long_post_html_head) (simp add: short_post_html)

theorem placement_skips_ai_witness:
  "getContentWithImagePlaceholder example_parser (answering ''2'') openai_config
       ''Hello'' ''Title'' []
     = (insertPlaceholderHeuristically example_parser ''Hello'' placeholder, [])
   \<and> getContentWithImagePlaceholder example_parser (answering ''2'') openai_config
       (innerHTML short_post) ''Title'' []
     = (insertPlaceholderHeuristically example_parser (innerHTML short_post) placeholder, [])
   \<and> length (querySelectorAll_p (parseFromString example_parser (innerHTML short_post))) = 3"
proof -
  have "''Hello'' \<noteq> innerHTML long_post"
    by (subst long_post_html_head) simp
  then have hello: "parseFromString example_parser ''Hello'' = [TextNode ''Hello'']"
    by (simp add: example_parser_def bang_post_html_def short_post_html)
  have short: "parseFromString example_parser (innerHTML short_post) = short_post"
    using long_short_differ by (simp add: example_parser_def)
  have 1: "length (querySelectorAll_p (parseFromString example_parser ''Hello'')) < 3"
    by (simp add: hello querySelectorAll_p_def)
  have 2: "length (filter (\<lambda>p. 80 \<le> length (trim (textContent p)))
      (take 5 (querySelectorAll_p (parseFromString example_parser (innerHTML short_post))))) < 2"
    unfolding short by (simp add: querySelectorAll_p_def short_post_def trim_def isWhitespace_def)
  have 3: "length (querySelectorAll_p (parseFromString example_parser (innerHTML short_post))) = 3"
    unfolding short by (simp add: querySelectorAll_p_def short_post_def)
  from placement_skips_ai [of example_parser "''Hello''" "answering ''2''" openai_config
      "''Title''" "[]"] 1
    placement_skips_ai [of example_parser "innerHTML short_post" "answering ''2''" openai_config
      "''Title''" "[]"] 2 3
  show ?thesis by blast
qed

lemma parseInt_one: "parseInt ''1'' = Num 1"
  by (simp add: parseInt_def roundToDouble_def isWhitespace_def isDigit_def digitsValue_def Let_def)

lemma targetParagraphIndex_less:
  assumes "3 \<le> n"
  shows "targetParagraphIndex responseText n < n"
  using assms by (auto simp: targetParagraphIndex_def split: js_number.splits)

lemma targetParagraphIndex_unparseable:
  assumes "firstDigits (trim responseText) = []" and "1 \<le> n"
  shows "targetParagraphIndex responseText n = 0"
  using assms by (simp add: targetParagraphIndex_def chosenText_def parseInt_one)

lemma targetParagraphIndex_out_of_range:
  assumes "parseInt (chosenText responseText) = Num m" and "m < 1 \<or> int n < m"
  shows "targetParagraphIndex responseText n = 1"
  using assms by (auto simp: targetParagraphIndex_def)

text \<open>
  With 3 or more paragraphs, 2 or more of them sent, and a reply from the provider, the
  marker goes after the paragraph with index \<open>targetParagraphIndex\<close>.
\<close>

lemma placement_follows_reply:
  assumes "3 \<le> length (querySelectorAll_p (parseFromString parser postContent))"
    and "2 \<le> length (paragraphsToAnalyze (querySelectorAll_p (parseFromString parser postContent)))"
    and "retryableAIOperation
           (generateText env cfg
              (placementPrompt (stripHtml parser postTitle)
                 (paragraphsToAnalyze (querySelectorAll_p (parseFromString parser postContent))))
              (Some 10) (Some 20000)) 2 500 w = (Inr responseText, w')"
  shows "getContentWithImagePlaceholder parser env cfg postContent postTitle w =
           (innerHTML
              (insertAfter
                 (targetParagraphIndex responseText
                    (length (querySelectorAll_p (parseFromString parser postContent))))
                 (parseAdjacent parser (adjacentHtml placeholder))
                 (parseFromString parser postContent)), w')"
  using assms targetParagraphIndex_less [OF assms(1), of responseText]
  by (simp add: getContentWithImagePlaceholder_def Let_def)

lemma long_post_paragraphs:
  "querySelectorAll_p long_post =
     [long_paragraph CHR ''a'', long_paragraph CHR ''b'', long_paragraph CHR ''c'']"
  by (simp add: querySelectorAll_p_def long_post_def long_paragraph_def)

lemma trim_replicate: "\<not> isWhitespace c \<Longrightarrow> trim (replicate n c) = replicate n c"
  by (cases n) (simp_all add: trim_def dropWhile_replicate flip: replicate_Suc)

lemma long_post_analyzed:
  "paragraphsToAnalyze (querySelectorAll_p long_post) =
     [(1, replicate 81 CHR ''a''), (2, replicate 81 CHR ''b''), (3, replicate 81 CHR ''c'')]"
  by (simp add: long_post_paragraphs paragraphsToAnalyze_def long_paragraph_def
      trim_replicate isWhitespace_def enumerate_eq_zip upt_rec)

lemma reply_arrives:
  "reply \<noteq> [] \<Longrightarrow>
   fst (retryableAIOperation
          (generateText (answering reply) openai_config prompt (Some 10) (Some 20000)) 2 500 [])
     = Inr reply"
  by (simp add: retryableAIOperation_def retryLoop.simps generateText_def openai_config_def
      missing_def callOpenAICompatibleAPI_def fetchWithTimeout_def answering_def)

lemma long_post_with_reply:
  assumes "reply \<noteq> []"
  shows "fst (getContentWithImagePlaceholder example_parser (answering reply) openai_config
            (innerHTML long_post) ''Title'' [])
         = innerHTML (insertAfter (targetParagraphIndex reply 3) markerNodes long_post)"
proof -
  have p: "parseFromString example_parser (innerHTML long_post) = long_post"
    by (simp add: example_parser_def)
  have a: "parseAdjacent example_parser (adjacentHtml placeholder) = markerNodes"
    by (simp add: example_parser_def)
  have len: "length (querySelectorAll_p long_post) = 3"
    by (simp add: long_post_paragraphs)
  have h1: "3 \<le> length (querySelectorAll_p (parseFromString example_parser (innerHTML long_post)))"
    unfolding p len by simp
  have h2: "2 \<le> length (paragraphsToAnalyze
               (querySelectorAll_p (parseFromString example_parser (innerHTML long_post))))"
    unfolding p by (simp add: long_post_analyzed)
  obtain r w' where rw: "retryableAIOperation
           (generateText (answering reply) openai_config
              (placementPrompt (stripHtml example_parser ''Title'')
                 (paragraphsToAnalyze
                    (querySelectorAll_p (parseFromString example_parser (innerHTML long_post)))))
              (Some 10) (Some 20000)) 2 500 [] = (r, w')"
    by (metis surj_pair)
  with reply_arrives [OF assms] have "r = Inr reply"
    by (metis fst_conv)
  with rw have h3: "retryableAIOperation
           (generateText (answering reply) openai_config
              (placementPrompt (stripHtml example_parser ''Title'')
                 (paragraphsToAnalyze
                    (querySelectorAll_p (parseFromString example_parser (innerHTML long_post)))))
              (Some 10) (Some 20000)) 2 500 [] = (Inr reply, w')"
    by simp
  show ?thesis
    unfolding placement_follows_reply [OF h1 h2 h3] unfolding p a len by simp
qed

lemma long_post_after:
  "innerHTML (insertAfter 0 markerNodes long_post)
     = innerHTML [long_paragraph CHR ''a''] @ adjacentHtml placeholder
       @ innerHTML [long_paragraph CHR ''b'', long_paragraph CHR ''c'']"
  "innerHTML (insertAfter (Suc 0) markerNodes long_post)
     = innerHTML [long_paragraph CHR ''a'', long_paragraph CHR ''b''] @ adjacentHtml placeholder
       @ innerHTML [long_paragraph CHR ''c'']"
  unfolding innerHTML_def long_post_def
  by (simp_all add: long_paragraph_def markerNodes_html)

text \<open>
  C3. What the code does with a post of three long paragraphs: a reply without a digit
  puts the marker after paragraph 1, as the claim says; the out-of-range replies \<open>9\<close> and
  \<open>0\<close> put it after paragraph 2, not after paragraph 1.
\<close>

theorem out_of_range_reply_placement:
  "fst (getContentWithImagePlaceholder example_parser (answering ''no idea'') openai_config
          (innerHTML long_post) ''Title'' [])
     = innerHTML [long_paragraph CHR ''a''] @ adjacentHtml placeholder
       @ innerHTML [long_paragraph CHR ''b'', long_paragraph CHR ''c'']
   \<and> fst (getContentWithImagePlaceholder example_parser (answering ''9'') openai_config
          (innerHTML long_post) ''Title'' [])
     = innerHTML [long_paragraph CHR ''a'', long_paragraph CHR ''b''] @ adjacentHtml placeholder
       @ innerHTML [long_paragraph CHR ''c'']
   \<and> fst (getContentWithImagePlaceholder example_parser (answering ''0'') openai_config
          (innerHTML long_post) ''Title'' [])
     = innerHTML [long_paragraph CHR ''a'', long_paragraph CHR ''b''] @ adjacentHtml placeholder
       @ innerHTML [long_paragraph CHR ''c'']"
proof -
  have "targetParagraphIndex ''no idea'' 3 = 0"
    by (rule targetParagraphIndex_unparseable)
       (simp_all add: firstDigits_def trim_def isWhitespace_def isDigit_def)
  moreover have "targetParagraphIndex ''9'' 3 = 1"
    by (simp add: targetParagraphIndex_def chosenText_def firstDigits_def trim_def
        isWhitespace_def isDigit_def parseInt_def roundToDouble_def digitsValue_def Let_def)
  moreover have "targetParagraphIndex ''0'' 3 = 1"
    by (simp add: targetParagraphIndex_def chosenText_def firstDigits_def trim_def
        isWhitespace_def isDigit_def parseInt_def roundToDouble_def digitsValue_def Let_def)
  ultimately show ?thesis
    by (simp add: long_post_with_reply long_post_after)
qed

lemma not_sublist_missing_char: "c \<in> set pat \<Longrightarrow> c \<notin> set s \<Longrightarrow> \<not> sublist pat s"
  by (auto simp: sublist_def)

lemma long_post_clean: "\<not> sublist placeholder (innerHTML long_post)"
proof (rule not_sublist_missing_char)
  show "CHR ''!'' \<in> set placeholder" by (simp add: placeholder_def)
  show "CHR ''!'' \<notin> set (innerHTML long_post)" by (simp add: long_post_html)
qed

theorem one_marker_per_post_witness:
  "length (occurrences placeholder
     (fst (getContentWithImagePlaceholder example_parser (answering ''2'') openai_config
             (innerHTML long_post) ''Title'' []))) = 1
   \<and> length (occurrences placeholder
     (insertPlaceholderHeuristically example_parser ''Hello'' placeholder)) = 1"
proof -
  have a: "parseAdjacent example_parser (adjacentHtml placeholder) = markerNodes"
    by (simp add: example_parser_def)
  have p: "parseFromString example_parser (innerHTML long_post) = long_post"
    by (simp add: example_parser_def)
  have 1: "\<not> sublist placeholder (innerHTML (parseFromString example_parser (innerHTML long_post)))"
    unfolding p by (rule long_post_clean)
  have 2: "querySelectorAll_p (parseFromString example_parser (innerHTML long_post)) \<noteq> []"
    unfolding p by (simp add: long_post_paragraphs)
  have "''Hello'' \<noteq> innerHTML long_post"
    by (subst long_post_html_head) simp
  then have hello: "parseFromString example_parser ''Hello'' = [TextNode ''Hello'']"
    by (simp add: example_parser_def bang_post_html_def short_post_html)
  have 3: "\<not> sublist placeholder (innerHTML (parseFromString example_parser ''Hello''))"
    unfolding hello
    by (rule not_sublist_missing_char [of "CHR ''!''"])
       (simp_all add: placeholder_def innerHTML_def escapeText_def)
  have 4: "innerHTML (parseInner example_parser
            (placeholder @ [CHR 0x0A] @ innerHTML (parseFromString example_parser ''Hello'')))
         = placeholder @ [CHR 0x0A] @ innerHTML (parseFromString example_parser ''Hello'')"
    unfolding hello
    by (simp add: example_parser_def innerHTML_def escapeText_def) (simp add: placeholder_def)
  from one_marker_per_post [OF a 1, of "answering ''2''" openai_config "''Title''" "[]"] 2
    one_marker_per_post [OF a 3, of "answering ''2''" openai_config "''Title''" "[]"] 4
  show ?thesis by simp
qed

text \<open>
  The claim as stated fails: the content \<open><p>Hello</p><!-- INSERT_IMAGE_HERE --!>\<close> does
  not contain the marker, the parser reads its end as a comment, and the returned
  content contains the marker twice.
\<close>

theorem marker_twice_after_bang_comment:
  "\<not> sublist placeholder bang_post_html
   \<and> fst (getContentWithImagePlaceholder example_parser (answering ''2'') openai_config
            bang_post_html ''Title'' [])
       = ''<p>Hello</p>'' @ [CHR 0x0A] @ placeholder @ [CHR 0x0A] @ placeholder
   \<and> occurrences placeholder
         (''<p>Hello</p>'' @ [CHR 0x0A] @ placeholder @ [CHR 0x0A] @ placeholder) = [13, 40]"
proof -
  have 1: "\<not> sublist placeholder bang_post_html"
    by code_simp
  have "bang_post_html \<noteq> innerHTML long_post"
    by (subst long_post_html_head) (simp add: bang_post_html_def)
  moreover have "bang_post_html \<noteq> innerHTML short_post"
    by (simp add: short_post_html bang_post_html_def)
  ultimately have p: "parseFromString example_parser bang_post_html = bang_post"
    by (simp add: example_parser_def)
  have a: "parseAdjacent example_parser (adjacentHtml placeholder) = markerNodes"
    by (simp add: example_parser_def)
  have q: "querySelectorAll_p bang_post = [Element ''p'' [] [TextNode ''Hello'']]"
    by (simp add: querySelectorAll_p_def bang_post_def)
  have "getContentWithImagePlaceholder example_parser (answering ''2'') openai_config
            bang_post_html ''Title'' []
        = (insertPlaceholderHeuristically example_parser bang_post_html placeholder, [])"
    by (simp add: getContentWithImagePlaceholder_def Let_def p q)
  moreover have "insertPlaceholderHeuristically example_parser bang_post_html placeholder
        = innerHTML (insertAfter 0 markerNodes bang_post)"
    by (simp add: heuristic_positions Let_def p q a)
  moreover have "innerHTML (insertAfter 0 markerNodes bang_post)
        = ''<p>Hello</p>'' @ [CHR 0x0A] @ placeholder @ [CHR 0x0A] @ placeholder"
    by (simp add: bang_post_def innerHTML_def markerNodes_def serializeAttributes_def
        rawTextElement_def escapeText_def placeholder_def)
  ultimately have 2: "fst (getContentWithImagePlaceholder example_parser (answering ''2'')
            openai_config bang_post_html ''Title'' [])
       = ''<p>Hello</p>'' @ [CHR 0x0A] @ placeholder @ [CHR 0x0A] @ placeholder"
    by simp
  have 3: "occurrences placeholder
         (''<p>Hello</p>'' @ [CHR 0x0A] @ placeholder @ [CHR 0x0A] @ placeholder) = [13, 40]"
    by code_simp
  from 1 2 3 show ?thesis by simp
qed

end
